theory Spec2Isabelle
  imports Complex_Main
begin

section \<open>JavaScript numbers\<close>

text \<open>
  Every number of \<^verbatim>\<open>main.js\<close> is a JavaScript number, an IEEE 754 binary64 value. The
  model keeps the three special values of that type apart from the finite ones: \<open>NaN\<close>,
  \<open>PInf\<close> (\<^verbatim>\<open>Infinity\<close>) and \<open>NInf\<close> (\<^verbatim>\<open>-Infinity\<close>). A finite number \<open>Fin v\<close> carries
  its value \<open>v\<close>, a real. The finite numbers of the language are those \<open>v\<close> that have a
  53-bit mantissa and an exponent in range (\<open>is_double\<close> below); every arithmetic operator
  rounds its exact result to the nearest of them, ties to the even mantissa, and gives an
  infinity when the rounded result is out of range (\<open>rnd\<close>). The two zeros of binary64
  are one value here: the script divides by no computed zero but \<^verbatim>\<open>1 - 1\<close>, and it prints
  both zeros alike.
\<close>

datatype jsnum = Fin real | PInf | NInf | NaN

definition inf_of :: "bool \<Rightarrow> jsnum" where
  "inf_of positive = (if positive then PInf else NInf)"

subsection \<open>Rounding to binary64\<close>

text \<open>\<open>pow2 k\<close> is \<open>2\<close> to the power \<open>k\<close>, for an integer \<open>k\<close> of either sign.\<close>

definition pow2 :: "int \<Rightarrow> real" where
  "pow2 k = (if 0 \<le> k then 2 ^ nat k else 1 / 2 ^ nat (- k))"

text \<open>
  The exponent of a positive \<open>x\<close> is the \<open>e\<close> with \<open>2^e \<le> x < 2^(e+1)\<close>, kept between
  \<open>-1022\<close> (below it the numbers are subnormal and share that exponent) and \<open>1023\<close>. It
  is found by halving \<open>x\<close> until it is below 2, or doubling it until it is at least 1, in
  at most 1023 and 1022 steps.
\<close>

fun halvings :: "real \<Rightarrow> nat \<Rightarrow> nat" where
  "halvings x 0 = 0"
| "halvings x (Suc n) = (if x < 2 then 0 else Suc (halvings (x / 2) n))"

fun doublings :: "real \<Rightarrow> nat \<Rightarrow> nat" where
  "doublings x 0 = 0"
| "doublings x (Suc n) = (if 1 \<le> x then 0 else Suc (doublings (2 * x) n))"

definition exponent :: "real \<Rightarrow> int" where
  "exponent x = (if 1 \<le> x then int (halvings x 1023) else - int (doublings x 1022))"

text \<open>The nearest integer, the even one of the two when \<open>x\<close> is half-way.\<close>

definition round_even :: "real \<Rightarrow> int" where
  "round_even x =
     (let n = \<lfloor>x\<rfloor>; d = x - of_int n
      in if d < 1 / 2 then n else if 1 / 2 < d then n + 1 else if even n then n else n + 1)"

text \<open>
  The unit in the last place of \<open>x\<close> is \<open>pow2 (quantum x)\<close>; \<open>mantissa x\<close> is the magnitude
  of \<open>x\<close> in that unit, rounded. The rounded value overflows when it reaches \<open>2^1024\<close>,
  which is when the mantissa reaches \<open>2^53\<close> at the top exponent.
\<close>

definition quantum :: "real \<Rightarrow> int" where
  "quantum x = exponent \<bar>x\<bar> - 52"

definition mantissa :: "real \<Rightarrow> int" where
  "mantissa x = round_even (\<bar>x\<bar> / pow2 (quantum x))"

definition rnd :: "real \<Rightarrow> jsnum" where
  "rnd x =
     (if x = 0 then Fin 0
      else if quantum x = 971 \<and> 2 ^ 53 \<le> mantissa x then inf_of (0 < x)
      else Fin (sgn x * of_int (mantissa x) * pow2 (quantum x)))"

text \<open>A number of the language: a special value, or a finite value that rounding keeps.\<close>

fun is_double :: "jsnum \<Rightarrow> bool" where
  "is_double (Fin v) = (rnd v = Fin v)"
| "is_double x = True"

text \<open>The number that a decimal literal such as \<^verbatim>\<open>9.6\<close> denotes.\<close>

definition lit :: "real \<Rightarrow> jsnum" where
  "lit x = rnd x"

subsection \<open>The operators\<close>

fun jneg :: "jsnum \<Rightarrow> jsnum" where
  "jneg (Fin a) = Fin (- a)"
| "jneg PInf = NInf"
| "jneg NInf = PInf"
| "jneg NaN = NaN"

text \<open>\<^verbatim>\<open>-x\<close> is exact. \<^verbatim>\<open>x + y\<close> is rounded; \<^verbatim>\<open>Infinity + -Infinity\<close> is \<^verbatim>\<open>NaN\<close>.\<close>

fun jadd :: "jsnum \<Rightarrow> jsnum \<Rightarrow> jsnum" where
  "jadd (Fin a) (Fin b) = rnd (a + b)"
| "jadd NaN y = NaN"
| "jadd x NaN = NaN"
| "jadd PInf NInf = NaN"
| "jadd NInf PInf = NaN"
| "jadd PInf y = PInf"
| "jadd x PInf = PInf"
| "jadd NInf y = NInf"
| "jadd x NInf = NInf"

definition jsub :: "jsnum \<Rightarrow> jsnum \<Rightarrow> jsnum" where
  "jsub x y = jadd x (jneg y)"

text \<open>\<^verbatim>\<open>x * y\<close> is rounded; \<^verbatim>\<open>0 * Infinity\<close> is \<^verbatim>\<open>NaN\<close>.\<close>

fun jmul :: "jsnum \<Rightarrow> jsnum \<Rightarrow> jsnum" where
  "jmul (Fin a) (Fin b) = rnd (a * b)"
| "jmul NaN y = NaN"
| "jmul x NaN = NaN"
| "jmul (Fin a) PInf = (if a = 0 then NaN else inf_of (0 < a))"
| "jmul (Fin a) NInf = (if a = 0 then NaN else inf_of (a < 0))"
| "jmul PInf (Fin b) = (if b = 0 then NaN else inf_of (0 < b))"
| "jmul NInf (Fin b) = (if b = 0 then NaN else inf_of (b < 0))"
| "jmul PInf PInf = PInf"
| "jmul PInf NInf = NInf"
| "jmul NInf PInf = NInf"
| "jmul NInf NInf = PInf"

text \<open>
  \<^verbatim>\<open>x / y\<close> is rounded. JavaScript raises nothing on a zero divisor: \<^verbatim>\<open>0 / 0\<close> is \<^verbatim>\<open>NaN\<close>,
  any other finite number over zero is an infinity, and \<^verbatim>\<open>Infinity / Infinity\<close> is \<^verbatim>\<open>NaN\<close>.
\<close>

fun jdiv :: "jsnum \<Rightarrow> jsnum \<Rightarrow> jsnum" where
  "jdiv (Fin a) (Fin b) =
     (if b = 0 then (if a = 0 then NaN else inf_of (0 < a)) else rnd (a / b))"
| "jdiv NaN y = NaN"
| "jdiv x NaN = NaN"
| "jdiv (Fin a) PInf = Fin 0"
| "jdiv (Fin a) NInf = Fin 0"
| "jdiv PInf (Fin b) = inf_of (0 \<le> b)"
| "jdiv NInf (Fin b) = inf_of (b < 0)"
| "jdiv PInf PInf = NaN"
| "jdiv PInf NInf = NaN"
| "jdiv NInf PInf = NaN"
| "jdiv NInf NInf = NaN"

text \<open>\<^verbatim>\<open>x <= y\<close> and \<^verbatim>\<open>x < y\<close>: every comparison with \<^verbatim>\<open>NaN\<close> is false.\<close>

fun jle :: "jsnum \<Rightarrow> jsnum \<Rightarrow> bool" where
  "jle (Fin a) (Fin b) = (a \<le> b)"
| "jle NaN y = False"
| "jle x NaN = False"
| "jle NInf y = True"
| "jle x PInf = True"
| "jle PInf y = False"
| "jle x NInf = False"

fun jlt :: "jsnum \<Rightarrow> jsnum \<Rightarrow> bool" where
  "jlt (Fin a) (Fin b) = (a < b)"
| "jlt NaN y = False"
| "jlt x NaN = False"
| "jlt PInf y = False"
| "jlt x NInf = False"
| "jlt NInf y = True"
| "jlt x PInf = True"

text \<open>\<^verbatim>\<open>Math.min\<close> and \<^verbatim>\<open>Math.max\<close> return \<^verbatim>\<open>NaN\<close> as soon as one argument is \<^verbatim>\<open>NaN\<close>.\<close>

definition Math_min :: "jsnum \<Rightarrow> jsnum \<Rightarrow> jsnum" where
  "Math_min x y = (if x = NaN \<or> y = NaN then NaN else if jle x y then x else y)"

definition Math_max :: "jsnum \<Rightarrow> jsnum \<Rightarrow> jsnum" where
  "Math_max x y = (if x = NaN \<or> y = NaN then NaN else if jle x y then y else x)"

text \<open>
  \<^verbatim>\<open>Math.floor\<close> leaves \<^verbatim>\<open>NaN\<close> and the infinities as they are. The floor of a finite
  number of the language is one again, so nothing is rounded.
\<close>

fun Math_floor :: "jsnum \<Rightarrow> jsnum" where
  "Math_floor (Fin a) = Fin (of_int \<lfloor>a\<rfloor>)"
| "Math_floor x = x"

section \<open>The viewport\<close>

text \<open>
  The global \<^verbatim>\<open>bounds\<close> holds four helper expressions; \<^verbatim>\<open>getMathBounds\<close> reads the
  current \<^verbatim>\<open>numericValue\<close> of each. The record is that global at the moment of the read.
\<close>

record bounds =
  x1 :: jsnum
  x2 :: jsnum
  y1 :: jsnum
  y2 :: jsnum

record math_bounds =
  left :: jsnum
  right :: jsnum
  bottom :: jsnum
  top' :: jsnum

definition getMathBounds :: "bounds \<Rightarrow> math_bounds" where
  "getMathBounds b =
     \<lparr> left = Math_min (x1 b) (x2 b),
       right = Math_max (x1 b) (x2 b),
       bottom = Math_min (y1 b) (y2 b),
       top' = Math_max (y1 b) (y2 b) \<rparr>"

section \<open>Promises\<close>

text \<open>
  An \<^verbatim>\<open>async\<close> function returns a promise, and the caller \<^verbatim>\<open>await\<close>s it. What the caller
  sees is one of three things: the promise resolves with a value, it rejects with the error
  thrown inside the function, or it never settles and the caller waits for ever. Nothing in
  \<^verbatim>\<open>main.js\<close> ever calls a \<^verbatim>\<open>rej\<close>, so a rejection can only come from a \<^verbatim>\<open>throw\<close>.
\<close>

text \<open>
  The errors: a property read on \<^verbatim>\<open>undefined\<close>, a recorder that rejects the mime type, and
  an exception thrown by a call into the calculator.
\<close>

datatype error = TypeError | NotSupportedError | HostError

datatype 'a outcome = Resolved 'a | Rejected error | Pending

fun is_rejected :: "'a outcome \<Rightarrow> bool" where
  "is_rejected (Rejected e) = True"
| "is_rejected r = False"

text \<open>
  \<^verbatim>\<open>Promise.all\<close>: rejects when a member rejects, resolves with every value once all members
  have resolved, and otherwise stays pending.
\<close>

fun Promise_all :: "'a outcome list \<Rightarrow> 'a list outcome" where
  "Promise_all [] = Resolved []"
| "Promise_all (p # ps) =
     (case p of
        Rejected e \<Rightarrow> Rejected e
      | Pending \<Rightarrow> (case Promise_all ps of Rejected e \<Rightarrow> Rejected e | r \<Rightarrow> Pending)
      | Resolved v \<Rightarrow>
          (case Promise_all ps of
             Resolved vs \<Rightarrow> Resolved (v # vs)
           | Rejected e \<Rightarrow> Rejected e
           | Pending \<Rightarrow> Pending))"

section \<open>The calculator session\<close>

text \<open>
  The calculator (\<^verbatim>\<open>Calc\<close>, Desmos API 1.6) is not part of the repository; the script only
  calls it. The session is modelled as far as the script reads and writes it: the list of
  expressions, each with the properties the script touches, and the three graph settings.
  The flags \<^verbatim>\<open>hidden\<close> and \<^verbatim>\<open>secret\<close> of an expression are booleans, false unless set; a
  property that an expression may lack is an option.

  The \<^verbatim>\<open>latex\<close> of an expression is a string. The script writes string literals, and one
  template literal, \<^verbatim>\<open>`t_{ime}=${time}`\<close>, which prints a number; \<open>TimeTemplate t\<close> stands
  for that string with \<open>t\<close> the number printed.
\<close>

datatype latex_src = Literal string | TimeTemplate jsnum

record expr =
  id' :: string
  type' :: string
  latex :: "latex_src option"
  hidden :: bool
  secret :: bool
  color :: "string option"
  fill :: "bool option"
  title :: "string option"
  folderId :: "string option"
  sliderBounds :: "(string \<times> string) option"

record graph_settings =
  showGrid :: bool
  showXAxis :: bool
  showYAxis :: bool

record calc =
  expressions :: "expr list"
  settings :: graph_settings

text \<open>
  The argument of \<^verbatim>\<open>setExpression\<close> is an object literal that names an \<^verbatim>\<open>id\<close> and
  some properties; a property the literal leaves out is \<open>None\<close>.
\<close>

record expression_state =
  set_id :: string
  set_type :: "string option"
  set_latex :: "latex_src option"
  set_hidden :: "bool option"
  set_secret :: "bool option"
  set_color :: "string option"
  set_fill :: "bool option"
  set_sliderBounds :: "(string \<times> string) option"

definition object :: "string \<Rightarrow> expression_state" where
  "object i =
     \<lparr> set_id = i, set_type = None, set_latex = None, set_hidden = None, set_secret = None,
       set_color = None, set_fill = None, set_sliderBounds = None \<rparr>"

text \<open>
  \<^verbatim>\<open>calc.setExpression\<close>, as the API documents it: when an expression with the id exists,
  the properties given are updated and the others stay; otherwise an expression is created
  at the end of the list, with the API's defaults (type \<^verbatim>\<open>expression\<close>, shown, not secret).
  \<^verbatim>\<open>calc.setExpressions\<close> does the same for each element in order.
\<close>

definition update_expr :: "expression_state \<Rightarrow> expr \<Rightarrow> expr" where
  "update_expr p e =
     e\<lparr> type' := (case set_type p of None \<Rightarrow> type' e | Some t \<Rightarrow> t),
        latex := (case set_latex p of None \<Rightarrow> latex e | Some l \<Rightarrow> Some l),
        hidden := (case set_hidden p of None \<Rightarrow> hidden e | Some h \<Rightarrow> h),
        secret := (case set_secret p of None \<Rightarrow> secret e | Some s \<Rightarrow> s),
        color := (case set_color p of None \<Rightarrow> color e | Some c \<Rightarrow> Some c),
        fill := (case set_fill p of None \<Rightarrow> fill e | Some f \<Rightarrow> Some f),
        sliderBounds :=
          (case set_sliderBounds p of None \<Rightarrow> sliderBounds e | Some b \<Rightarrow> Some b) \<rparr>"

definition create_expr :: "expression_state \<Rightarrow> expr" where
  "create_expr p =
     \<lparr> id' = set_id p,
       type' = (case set_type p of None \<Rightarrow> ''expression'' | Some t \<Rightarrow> t),
       latex = set_latex p,
       hidden = (case set_hidden p of None \<Rightarrow> False | Some h \<Rightarrow> h),
       secret = (case set_secret p of None \<Rightarrow> False | Some s \<Rightarrow> s),
       color = set_color p,
       fill = set_fill p,
       title = None,
       folderId = None,
       sliderBounds = set_sliderBounds p \<rparr>"

fun set_in_list :: "expression_state \<Rightarrow> expr list \<Rightarrow> expr list" where
  "set_in_list p [] = [create_expr p]"
| "set_in_list p (e # es) =
     (if id' e = set_id p then update_expr p e # es else e # set_in_list p es)"

definition setExpression :: "expression_state \<Rightarrow> calc \<Rightarrow> calc" where
  "setExpression p c = c\<lparr>expressions := set_in_list p (expressions c)\<rparr>"

definition setExpressions :: "expression_state list \<Rightarrow> calc \<Rightarrow> calc" where
  "setExpressions ps c = foldl (\<lambda>c' p. setExpression p c') c ps"

definition getExpressions :: "calc \<Rightarrow> expr list" where
  "getExpressions c = expressions c"

definition updateSettings :: "graph_settings \<Rightarrow> calc \<Rightarrow> calc" where
  "updateSettings g c = c\<lparr>settings := g\<rparr>"

text \<open>\<^verbatim>\<open>expressions.find(expr => expr.id === i)\<close>: the first match, or \<^verbatim>\<open>undefined\<close>.\<close>

definition find_id :: "string \<Rightarrow> expr list \<Rightarrow> expr option" where
  "find_id i es = List.find (\<lambda>e. id' e = i) es"

text \<open>
  What the calculator and the browser do when called is a parameter of the model.
  \<^item> \<open>notifications c l\<close>: the values of \<^verbatim>\<open>numericValue\<close> that a helper expression with
    latex \<open>l\<close>, created in session \<open>c\<close>, reports to its observers, in order; empty when it
    never reports.
  \<^item> \<open>asyncScreenshot c opts\<close>: the data URL handed to the callback; \<open>Pending\<close> when the
    callback is never called, \<open>Rejected\<close> when the call throws.
  \<^item> \<open>decodes src\<close>: whether the image's \<^verbatim>\<open>onload\<close> fires.
  \<^item> \<open>recorder_supported\<close>: whether \<^verbatim>\<open>new MediaRecorder\<close> accepts the mime type (it
    throws \<^verbatim>\<open>NotSupportedError\<close> otherwise).
  \<^item> \<open>recorder_chunks\<close>: the chunks the recorder has delivered when \<^verbatim>\<open>onstop\<close> fires for
    the given schedule; \<open>None\<close> when \<^verbatim>\<open>onstop\<close> never fires.
\<close>

record screenshot_opts =
  width :: jsnum
  height :: jsnum
  mode :: string
  mathBounds :: math_bounds

datatype image = Image string

datatype timer_action = DrawImage image | RecorderStop

datatype event = Loaded image | RecorderStart | SetTimeout timer_action jsnum

datatype blob = Blob "string list"

record host =
  notifications :: "calc \<Rightarrow> string \<Rightarrow> jsnum list"
  asyncScreenshot :: "calc \<Rightarrow> screenshot_opts \<Rightarrow> string outcome"
  decodes :: "string \<Rightarrow> bool"
  recorder_supported :: bool
  recorder_chunks :: "event list \<Rightarrow> string list option"

section \<open>Utilities\<close>

text \<open>
  \<^verbatim>\<open>loadImage\<close> sets \<^verbatim>\<open>onload\<close> only: the promise resolves when the image loads and is
  never settled when it does not.
\<close>

definition loadImage :: "host \<Rightarrow> string \<Rightarrow> image outcome" where
  "loadImage env src = (if decodes env src then Resolved (Image src) else Pending)"

section \<open>Desmos utilities\<close>

text \<open>
  \<^verbatim>\<open>evaluate\<close> creates a helper expression for \<^verbatim>\<open>latex + "+0"\<close>, registers an observer of
  \<^verbatim>\<open>numericValue\<close> on it and returns a promise. The observer's body is
  \<^verbatim>\<open>res(expression.numericValue)\<close> and nothing else. \<open>evaluation\<close> is what exists after the
  call: the helper's latex, whether the observer is registered, the promise's value once
  resolved, and how many times the observer has run. \<open>res\<close> is the promise's resolver: it
  settles a pending promise and does nothing to a settled one.
\<close>

record evaluation =
  helper_latex :: string
  observing :: bool
  resolved_with :: "jsnum option"
  calls :: nat

definition res :: "jsnum \<Rightarrow> jsnum option \<Rightarrow> jsnum option" where
  "res v p = (case p of None \<Rightarrow> Some v | Some w \<Rightarrow> Some w)"

definition evaluate_call :: "string \<Rightarrow> evaluation" where
  "evaluate_call l =
     \<lparr> helper_latex = l @ ''+0'', observing = True, resolved_with = None, calls = 0 \<rparr>"

text \<open>The calculator reports the value \<open>v\<close>: every registered observer runs.\<close>

definition notify :: "evaluation \<Rightarrow> jsnum \<Rightarrow> evaluation" where
  "notify ev v =
     (if observing ev
      then ev\<lparr>resolved_with := res v (resolved_with ev), calls := Suc (calls ev)\<rparr>
      else ev)"

text \<open>
  The API's \<^verbatim>\<open>unobserve\<close> removes the observer. \<^verbatim>\<open>main.js\<close> never calls it, so no function
  below does.
\<close>

definition unobserve :: "evaluation \<Rightarrow> evaluation" where
  "unobserve ev = ev\<lparr>observing := False\<rparr>"

text \<open>\<^verbatim>\<open>await evaluate(calc, latex)\<close>, with the helper's reports taken from the host.\<close>

definition evaluate :: "host \<Rightarrow> calc \<Rightarrow> string \<Rightarrow> jsnum outcome" where
  "evaluate env c l =
     (let ev = evaluate_call l in
      case resolved_with (foldl notify ev (notifications env c (helper_latex ev))) of
        None \<Rightarrow> Pending
      | Some v \<Rightarrow> Resolved v)"

definition screenshot :: "host \<Rightarrow> calc \<Rightarrow> screenshot_opts \<Rightarrow> string outcome" where
  "screenshot env c opts = asyncScreenshot env c opts"

section \<open>\<^verbatim>\<open>setup\<close>\<close>

text \<open>
  The string literals of \<^verbatim>\<open>setup\<close>. \<open>bs\<close> is the backslash; \<open>GREEN\<close> is the calculator's
  \<^verbatim>\<open>calc.colors.GREEN\<close>.
\<close>

definition bs :: char where
  "bs = CHR 0x5C"

definition GREEN :: string where
  "GREEN = ''#388c46''"

definition latex_x1y1 :: string where
  "latex_x1y1 = [bs] @ ''left(B_{x1},B_{y1}'' @ [bs] @ ''right)''"

definition latex_x2y2 :: string where
  "latex_x2y2 = [bs] @ ''left(B_{x2},B_{y2}'' @ [bs] @ ''right)''"

definition latex_rect :: string where
  "latex_rect =
     [bs] @ ''operatorname{polygon}'' @ [bs] @ ''left('' @ [bs] @ ''left[''
     @ [bs] @ ''left(B_{x1},B_{y1}'' @ [bs] @ ''right),''
     @ [bs] @ ''left(B_{x1},B_{y2}'' @ [bs] @ ''right),''
     @ [bs] @ ''left(B_{x2},B_{y2}'' @ [bs] @ ''right),''
     @ [bs] @ ''left(B_{x2},B_{y1}'' @ [bs] @ ''right)''
     @ [bs] @ ''right]'' @ [bs] @ ''right)''"

definition latex_start_action :: string where
  "latex_start_action = ''a_{nimate} '' @ [bs] @ ''to a_{nimate}+1''"

text \<open>The three argument lists of \<^verbatim>\<open>setExpression(s)\<close> in \<^verbatim>\<open>setup\<close>, in source order.\<close>

definition folder_and_controls :: "expression_state list" where
  "folder_and_controls =
     [ (object ''bounds'')\<lparr>set_hidden := Some False, set_type := Some ''folder''\<rparr>,
       (object ''bounds x1y1'')
         \<lparr>set_secret := Some True, set_color := Some GREEN,
          set_latex := Some (Literal latex_x1y1)\<rparr>,
       (object ''bounds x2y2'')
         \<lparr>set_secret := Some True, set_color := Some GREEN,
          set_latex := Some (Literal latex_x2y2)\<rparr>,
       (object ''bounds rect'')
         \<lparr>set_secret := Some True, set_color := Some GREEN, set_fill := Some False,
          set_latex := Some (Literal latex_rect)\<rparr>,
       (object ''bounds animate'')
         \<lparr>set_secret := Some True, set_latex := Some (Literal ''a_{nimate}=0'')\<rparr>,
       (object ''bounds start action'')
         \<lparr>set_secret := Some False, set_latex := Some (Literal latex_start_action)\<rparr> ]"

definition edges :: "expression_state list" where
  "edges =
     [ (object ''bounds x1'')
         \<lparr>set_secret := Some True, set_latex := Some (Literal ''B_{x1}=-9.6'')\<rparr>,
       (object ''bounds x2'')
         \<lparr>set_secret := Some True, set_latex := Some (Literal ''B_{x2}= 9.6'')\<rparr>,
       (object ''bounds y1'')
         \<lparr>set_secret := Some True, set_latex := Some (Literal ''B_{y1}=-5.4'')\<rparr>,
       (object ''bounds y2'')
         \<lparr>set_secret := Some True, set_latex := Some (Literal ''B_{y2}= 5.4'')\<rparr> ]"

definition time_slider :: expression_state where
  "time_slider =
     (object ''bounds time'')
       \<lparr>set_latex := Some (Literal ''t_{ime}=0''), set_sliderBounds := Some (''0'', ''1'')\<rparr>"

text \<open>\<^verbatim>\<open>s.startsWith(p)\<close>.\<close>

definition startsWith :: "string \<Rightarrow> string \<Rightarrow> bool" where
  "startsWith s p = (take (length p) s = p)"

text \<open>The body of the loop over \<^verbatim>\<open>state.expressions.list\<close>.\<close>

definition place_in_folder :: "expr \<Rightarrow> expr" where
  "place_in_folder e =
     (if id' e = ''bounds'' then e\<lparr>title := Some ''Bounds''\<rparr>
      else if startsWith (id' e) ''bounds'' then e\<lparr>folderId := Some ''bounds''\<rparr>
      else e)"

text \<open>
  \<^verbatim>\<open>calc.getState()\<close> and \<^verbatim>\<open>calc.setState(state)\<close> read and replace the whole session; the
  part of it modelled here is the record \<open>calc\<close> itself.
\<close>

definition getState :: "calc \<Rightarrow> calc" where
  "getState c = c"

definition setState :: "calc \<Rightarrow> calc \<Rightarrow> calc" where
  "setState state c = state"

text \<open>
  Lines 70 to 110 of \<^verbatim>\<open>setup\<close>: everything it does to the session. The set of ids is read
  once, before the first write.
\<close>

definition setup_session :: "calc \<Rightarrow> calc" where
  "setup_session c =
     (let ids = set (map id' (getExpressions c));
          c1 = setExpressions folder_and_controls c;
          c2 = (if ''bounds x1'' \<notin> ids then setExpressions edges c1 else c1);
          c3 = (if ''bounds time'' \<notin> ids then setExpression time_slider c2 else c2);
          state = getState c3
      in setState (state\<lparr>expressions := map place_in_folder (expressions state)\<rparr>) c3)"

text \<open>
  The rest of \<^verbatim>\<open>setup\<close> creates the four helper expressions of the global \<^verbatim>\<open>bounds\<close> and
  waits until each has reported a value once. The whole function is \<open>setup'\<close> (the plain
  name is a keyword of the theory language).
\<close>

definition first_report :: "host \<Rightarrow> calc \<Rightarrow> string \<Rightarrow> unit outcome" where
  "first_report env c l = (if notifications env c l = [] then Pending else Resolved ())"

definition setup' :: "host \<Rightarrow> calc \<Rightarrow> calc \<times> unit outcome" where
  "setup' env c =
     (let c' = setup_session c in
      (c', case Promise_all (map (first_report env c')
                    [''B_{x1}'', ''B_{x2}'', ''B_{y1}'', ''B_{y2}'']) of
             Resolved us \<Rightarrow> Resolved ()
           | Rejected e \<Rightarrow> Rejected e
           | Pending \<Rightarrow> Pending))"

section \<open>\<^verbatim>\<open>captureFrames\<close>\<close>

text \<open>
  The settings of a render. \<^verbatim>\<open>frames\<close> is a count, a natural number; where the script
  computes with it or with a loop index, it is the number \<open>Fin (real n)\<close>, which is a
  number of the language for every count up to \<open>2^53\<close>.
\<close>

record render_settings =
  duration :: jsnum
  frames :: nat
  resolution :: jsnum

text \<open>\<^verbatim>\<open>min + (i / (settings.frames - 1)) * (max - min)\<close>, with JavaScript's operators.\<close>

definition sample_time :: "render_settings \<Rightarrow> jsnum \<Rightarrow> jsnum \<Rightarrow> nat \<Rightarrow> jsnum" where
  "sample_time s mn mx i =
     jadd mn (jmul (jdiv (Fin (real i)) (jsub (Fin (real (frames s))) (Fin 1))) (jsub mx mn))"

text \<open>
  The loop of \<^verbatim>\<open>captureFrames\<close> over the indices still to do. A screenshot that throws
  or never calls back ends the function there, with the session as it then is.
\<close>

fun capture_loop ::
  "host \<Rightarrow> render_settings \<Rightarrow> screenshot_opts \<Rightarrow> jsnum \<Rightarrow> jsnum \<Rightarrow> nat list \<Rightarrow> calc
     \<Rightarrow> string list \<Rightarrow> calc \<times> string list outcome" where
  "capture_loop env s opts mn mx [] c fs = (c, Resolved fs)"
| "capture_loop env s opts mn mx (i # todo) c fs =
     (let time = sample_time s mn mx i;
          c' = setExpression ((object ''bounds time'')\<lparr>set_latex := Some (TimeTemplate time)\<rparr>) c
      in case screenshot env c' opts of
           Resolved dataurl \<Rightarrow> capture_loop env s opts mn mx todo c' (fs @ [dataurl])
         | Rejected e \<Rightarrow> (c', Rejected e)
         | Pending \<Rightarrow> (c', Pending))"

text \<open>Lines 141 and 142: the grid, the axes and the folder are hidden.\<close>

definition hide_chrome :: "calc \<Rightarrow> calc" where
  "hide_chrome c =
     setExpression ((object ''bounds'')\<lparr>set_hidden := Some True\<rparr>)
       (updateSettings \<lparr> showGrid = False, showXAxis = False, showYAxis = False \<rparr> c)"

text \<open>
  \<^verbatim>\<open>captureFrames\<close>. Reading a property of \<^verbatim>\<open>undefined\<close> throws a \<^verbatim>\<open>TypeError\<close>: at line 138
  when no expression has the id \<^verbatim>\<open>bounds\<close>, at line 145 when none has the id
  \<^verbatim>\<open>bounds time\<close> or that one has no \<^verbatim>\<open>sliderBounds\<close>. There is no \<^verbatim>\<open>try\<close> in the function:
  lines 155 and 156 run only when the loop has finished.
\<close>

definition captureFrames ::
  "host \<Rightarrow> calc \<Rightarrow> render_settings \<Rightarrow> screenshot_opts \<Rightarrow> calc \<times> string list outcome" where
  "captureFrames env c s opts =
     (let es = getExpressions c in
      case find_id ''bounds'' es of
        None \<Rightarrow> (c, Rejected TypeError)
      | Some folder \<Rightarrow>
          (let folderHidden = hidden folder;
               saved = settings c;
               c2 = hide_chrome c
           in case find_id ''bounds time'' es of
                None \<Rightarrow> (c2, Rejected TypeError)
              | Some slider \<Rightarrow>
                  (case sliderBounds slider of
                     None \<Rightarrow> (c2, Rejected TypeError)
                   | Some (smin, smax) \<Rightarrow>
                       (case evaluate env c2 smin of
                          Rejected e \<Rightarrow> (c2, Rejected e)
                        | Pending \<Rightarrow> (c2, Pending)
                        | Resolved mn \<Rightarrow>
                            (case evaluate env c2 smax of
                               Rejected e \<Rightarrow> (c2, Rejected e)
                             | Pending \<Rightarrow> (c2, Pending)
                             | Resolved mx \<Rightarrow>
                                 (case capture_loop env s opts mn mx [0..<frames s] c2 [] of
                                    (c3, Rejected e) \<Rightarrow> (c3, Rejected e)
                                  | (c3, Pending) \<Rightarrow> (c3, Pending)
                                  | (c3, Resolved fs) \<Rightarrow>
                                      (updateSettings saved
                                         (setExpression
                                            ((object ''bounds'')
                                               \<lparr>set_hidden := Some folderHidden\<rparr>) c3),
                                       Resolved fs)))))))"

text \<open>
  The chrome of a session: grid shown, x-axis shown, y-axis shown, and the hidden flag of
  the folder \<^verbatim>\<open>bounds\<close> (\<open>None\<close> when the session has no such expression).
\<close>

definition chrome :: "calc \<Rightarrow> bool \<times> bool \<times> bool \<times> bool option" where
  "chrome c =
     (showGrid (settings c), showXAxis (settings c), showYAxis (settings c),
      map_option hidden (find_id ''bounds'' (expressions c)))"

text \<open>The latex of the time binding, when the session has one.\<close>

definition time_binding :: "calc \<Rightarrow> latex_src option" where
  "time_binding c =
     (case find_id ''bounds time'' (expressions c) of None \<Rightarrow> None | Some e \<Rightarrow> latex e)"

section \<open>\<^verbatim>\<open>createVideo\<close>\<close>

text \<open>
  What \<^verbatim>\<open>createVideo\<close> does is recorded as the list of its events in the order they
  happen: the images that load, the start of the recorder, and each \<^verbatim>\<open>setTimeout\<close> with its
  action and its delay in milliseconds. The recorder is constructed before any image is
  loaded; \<^verbatim>\<open>recorder.start()\<close> comes after the \<^verbatim>\<open>await\<close> of every image.
\<close>

text \<open>\<^verbatim>\<open>const delay = 1000*settings.duration/settings.frames\<close>, in milliseconds.\<close>

definition frame_delay :: "render_settings \<Rightarrow> jsnum" where
  "frame_delay s = jdiv (jmul (Fin 1000) (duration s)) (Fin (real (frames s)))"

definition schedule :: "render_settings \<Rightarrow> image list \<Rightarrow> event list" where
  "schedule s images =
     (let delay = frame_delay s in
      map (\<lambda>i. SetTimeout (DrawImage (images ! i)) (jmul delay (Fin (real i))))
        [0..<length images]
      @ [SetTimeout RecorderStop (jmul delay (Fin (real (length images))))])"

definition createVideo ::
  "host \<Rightarrow> string list \<Rightarrow> jsnum \<Rightarrow> jsnum \<Rightarrow> render_settings \<Rightarrow> event list \<times> blob outcome" where
  "createVideo env fs w h s =
     (if \<not> recorder_supported env then ([], Rejected NotSupportedError)
      else
        case Promise_all (map (loadImage env) fs) of
          Rejected e \<Rightarrow> (map (Loaded \<circ> Image) (filter (decodes env) fs), Rejected e)
        | Pending \<Rightarrow> (map (Loaded \<circ> Image) (filter (decodes env) fs), Pending)
        | Resolved images \<Rightarrow>
            (let trace = map Loaded images @ [RecorderStart] @ schedule s images in
             (trace,
              case recorder_chunks env trace of
                None \<Rightarrow> Pending
              | Some chunks \<Rightarrow> Resolved (Blob chunks))))"

text \<open>The delays of the scheduled draws, in the order scheduled, and those of the stop.\<close>

fun draw_delays :: "event list \<Rightarrow> jsnum list" where
  "draw_delays [] = []"
| "draw_delays (SetTimeout (DrawImage img) d # evs) = d # draw_delays evs"
| "draw_delays (ev # evs) = draw_delays evs"

fun stop_delays :: "event list \<Rightarrow> jsnum list" where
  "stop_delays [] = []"
| "stop_delays (SetTimeout RecorderStop d # evs) = d # stop_delays evs"
| "stop_delays (ev # evs) = stop_delays evs"

section \<open>\<^verbatim>\<open>render\<close>\<close>

definition capture_opts :: "math_bounds \<Rightarrow> render_settings \<Rightarrow> screenshot_opts" where
  "capture_opts bnds s =
     \<lparr> width = Math_floor (jmul (jsub (right bnds) (left bnds)) (resolution s)),
       height = Math_floor (jmul (jsub (top' bnds) (bottom bnds)) (resolution s)),
       mode = ''stretch'',
       mathBounds = bnds \<rparr>"


section \<open>Observations on a session\<close>

text \<open>The ids of the expressions of a session.\<close>

definition ids :: "calc \<Rightarrow> string set" where
  "ids c = set (map id' (expressions c))"

text \<open>
  \<open>applied p es\<close>: the list has an expression with the id of \<open>p\<close>, and the first such
  expression already carries every property that \<open>p\<close> gives.
\<close>

definition applied :: "expression_state \<Rightarrow> expr list \<Rightarrow> bool" where
  "applied p es =
     (case find_id (set_id p) es of None \<Rightarrow> False | Some e \<Rightarrow> update_expr p e = e)"

section \<open>Example sessions\<close>

text \<open>
  Concrete inputs on which the theorems below are evaluated. \<open>script_settings\<close> are the
  settings written in the script; \<open>default_bounds\<close> are the values of the four edges that
  \<^verbatim>\<open>setup\<close> creates; \<open>host0\<close> is a calculator that reports \<open>1\<close> for the helper expression
  \<^verbatim>\<open>1+0\<close> and \<open>0\<close> for any other, and a browser in which everything works.
\<close>

definition all_shown :: graph_settings where
  "all_shown = \<lparr> showGrid = True, showXAxis = True, showYAxis = True \<rparr>"

definition blank :: calc where
  "blank = \<lparr> expressions = [], settings = all_shown \<rparr>"

definition host0 :: host where
  "host0 =
     \<lparr> notifications = (\<lambda>c l. if l = ''1+0'' then [Fin 1] else [Fin 0]),
       asyncScreenshot = (\<lambda>c opts. Resolved ''data:image/png''),
       decodes = (\<lambda>src. True),
       recorder_supported = True,
       recorder_chunks = (\<lambda>evs. Some [''webm'']) \<rparr>"

text \<open>A session with the folder and no time slider, and one with both.\<close>

definition folder_only :: calc where
  "folder_only =
     \<lparr> expressions = [create_expr ((object ''bounds'')\<lparr>set_type := Some ''folder''\<rparr>)],
       settings = all_shown \<rparr>"

definition folder_and_slider :: calc where
  "folder_and_slider =
     \<lparr> expressions =
         [create_expr ((object ''bounds'')\<lparr>set_type := Some ''folder''\<rparr>),
          create_expr time_slider],
       settings = all_shown \<rparr>"

definition default_bounds :: bounds where
  "default_bounds = \<lparr> x1 = lit (-9.6), x2 = lit 9.6, y1 = lit (-5.4), y2 = lit 5.4 \<rparr>"

text \<open>The corners dragged past each other, and a corner whose expression has no value.\<close>

definition dragged_bounds :: bounds where
  "dragged_bounds = \<lparr> x1 = Fin 7, x2 = Fin (-4), y1 = Fin 3, y2 = Fin (-2) \<rparr>"

definition nan_corner :: bounds where
  "nan_corner = \<lparr> x1 = NaN, x2 = lit 9.6, y1 = lit (-5.4), y2 = lit 5.4 \<rparr>"

definition script_settings :: render_settings where
  "script_settings = \<lparr> duration = Fin 5, frames = 200, resolution = Fin 10 \<rparr>"

definition opts0 :: screenshot_opts where
  "opts0 = capture_opts (getMathBounds default_bounds) script_settings"

text \<open>A browser in which the image with source \<^verbatim>\<open>broken\<close> does not load.\<close>

definition broken_frame :: host where
  "broken_frame = host0\<lparr>decodes := (\<lambda>src. src \<noteq> ''broken'')\<rparr>"

text \<open>
  A session that has the edge \<^verbatim>\<open>bounds x1\<close>, set by the user, and none of the other three;
  the session after a first run of \<^verbatim>\<open>setup\<close> on an empty one; and that session after the
  user has raised \<open>a_{nimate}\<close> to 1.
\<close>

definition x1_only :: calc where
  "x1_only =
     \<lparr> expressions =
         [create_expr ((object ''bounds x1'')\<lparr>set_latex := Some (Literal ''B_{x1}=2'')\<rparr>)],
       settings = all_shown \<rparr>"

definition bootstrapped :: calc where
  "bootstrapped = setup_session blank"

definition animated :: calc where
  "animated =
     setExpression ((object ''bounds animate'')\<lparr>set_latex := Some (Literal ''a_{nimate}=1'')\<rparr>)
       bootstrapped"



text \<open>
  A session whose time slider runs from 0.2 to 0.9, and a calculator that evaluates these
  two bounds to the numbers nearest 0.2 and 0.9.
\<close>

definition range_host :: host where
  "range_host =
     host0\<lparr>notifications := (\<lambda>c l. if l = ''0.9+0'' then [lit 0.9] else [lit 0.2])\<rparr>"

definition range_session :: calc where
  "range_session =
     \<lparr> expressions =
         [create_expr ((object ''bounds'')\<lparr>set_type := Some ''folder''\<rparr>),
          create_expr (time_slider\<lparr>set_sliderBounds := Some (''0.2'', ''0.9'')\<rparr>)],
       settings = all_shown \<rparr>"

text \<open>Settings with a duration of \<open>2^1020\<close> seconds, about \<^verbatim>\<open>1.1e307\<close>, and three frames.\<close>

definition long_settings :: render_settings where
  "long_settings = \<lparr> duration = Fin (2 ^ 1020), frames = 3, resolution = Fin 10 \<rparr>"

section \<open>Facts about rounding\<close>

lemma pow2_powr: "pow2 k = 2 powr (real_of_int k)"
proof (cases "0 \<le> k")
  case True
  then have "2 powr (real_of_int k) = 2 powr (real (nat k))" by simp
  also have "\<dots> = 2 ^ nat k" by (simp add: powr_realpow)
  finally show ?thesis using True by (simp add: pow2_def)
next
  case False
  then have "2 powr (real_of_int k) = 2 powr (- real (nat (- k)))" by simp
  also have "\<dots> = 1 / 2 ^ nat (- k)"
    by (simp only: powr_minus) (simp add: powr_realpow divide_inverse)
  finally show ?thesis using False by (simp add: pow2_def)
qed

lemma pow2_pos [simp]: "0 < pow2 k"
  by (simp add: pow2_powr)

lemma pow2_add: "pow2 (a + b) = pow2 a * pow2 b"
  by (simp add: pow2_powr powr_add)

lemma pow2_diff: "pow2 (a - b) = pow2 a / pow2 b"
  by (simp add: pow2_powr powr_diff)

lemma pow2_le_iff [simp]: "pow2 a \<le> pow2 b \<longleftrightarrow> a \<le> b"
  by (simp add: pow2_powr)

lemma pow2_less_iff [simp]: "pow2 a < pow2 b \<longleftrightarrow> a < b"
  by (simp add: pow2_powr)

lemma pow2_nat: "pow2 (int n) = 2 ^ n"
  by (simp add: pow2_def)

lemma pow2_0 [simp]: "pow2 0 = 1"
  by (simp add: pow2_def)

lemma halvings_le: "halvings x n \<le> n"
  by (induction x n rule: halvings.induct) auto

lemma halvings_spec:
  "1 \<le> x \<Longrightarrow> x < 2 ^ Suc n \<Longrightarrow> 2 ^ halvings x n \<le> x \<and> x < 2 ^ Suc (halvings x n)"
proof (induction x n rule: halvings.induct)
  case (1 x)
  then show ?case by simp
next
  case (2 x n)
  show ?case
  proof (cases "x < 2")
    case True
    with 2 show ?thesis by simp
  next
    case False
    then have "1 \<le> x / 2" by simp
    moreover from "2.prems" have "x / 2 < 2 ^ Suc n" by simp
    ultimately have "2 ^ halvings (x / 2) n \<le> x / 2 \<and> x / 2 < 2 ^ Suc (halvings (x / 2) n)"
      using "2.IH" False by blast
    with False show ?thesis by simp
  qed
qed

lemma halvings_cap: "2 ^ Suc n \<le> x \<Longrightarrow> halvings x n = n"
proof (induction x n rule: halvings.induct)
  case (1 x)
  then show ?case by simp
next
  case (2 x n)
  from "2.prems" have big: "4 * 2 ^ n \<le> x" by simp
  have "(1::real) \<le> 2 ^ n" by simp
  with big have nl: "\<not> x < 2" by linarith
  from big have "2 ^ Suc n \<le> x / 2" by simp
  with "2.IH" nl have "halvings (x / 2) n = n" by blast
  with nl show ?case by simp
qed

lemma doublings_le: "doublings x n \<le> n"
  by (induction x n rule: doublings.induct) auto

lemma doublings_ge1: "1 \<le> x \<Longrightarrow> doublings x n = 0"
  by (cases n) simp_all

lemma doublings_spec:
  "0 < x \<Longrightarrow> x < 1 \<Longrightarrow> 1 / 2 ^ n \<le> x \<Longrightarrow>
     1 / 2 ^ doublings x n \<le> x \<and> x < 2 / 2 ^ doublings x n"
proof (induction x n rule: doublings.induct)
  case (1 x)
  then show ?case by simp
next
  case (2 x n)
  show ?case
  proof (cases "1 \<le> 2 * x")
    case True
    then have "doublings (2 * x) n = 0" by (rule doublings_ge1)
    with "2.prems" True show ?thesis by simp
  next
    case False
    from "2.prems" have "1 / 2 ^ n \<le> 2 * x" by (simp add: field_simps)
    with "2.IH" "2.prems" False
    have "1 / 2 ^ doublings (2 * x) n \<le> 2 * x \<and> 2 * x < 2 / 2 ^ doublings (2 * x) n"
      by simp
    with "2.prems" show ?thesis by (simp add: field_simps)
  qed
qed

lemma doublings_cap: "0 < x \<Longrightarrow> x < 1 / 2 ^ n \<Longrightarrow> doublings x n = n"
proof (induction x n rule: doublings.induct)
  case (1 x)
  then show ?case by simp
next
  case (2 x n)
  have "(1::real) \<le> 2 ^ Suc n" by (rule one_le_power) simp
  then have "(1::real) / 2 ^ Suc n \<le> 1" by (simp add: field_simps)
  with "2.prems"(2) have lt: "\<not> 1 \<le> x" by linarith
  from "2.prems" have "2 * x < 1 / 2 ^ n" by (simp add: field_simps)
  with "2.IH" "2.prems" lt have "doublings (2 * x) n = n" by simp
  with lt show ?case by simp
qed

lemma exponent_range: "- 1022 \<le> exponent x \<and> exponent x \<le> 1023"
  using halvings_le [of x 1023] doublings_le [of x 1022] by (simp add: exponent_def)

lemma exponent_cap_hi: "pow2 1024 \<le> x \<Longrightarrow> exponent x = 1023"
proof -
  assume big: "pow2 1024 \<le> x"
  have "pow2 1024 = 2 ^ Suc 1023" by (simp add: pow2_def)
  with big have "2 ^ Suc 1023 \<le> x" by simp
  then have "halvings x 1023 = 1023" by (rule halvings_cap)
  moreover have "(1::real) \<le> 2 ^ Suc 1023" by (rule one_le_power) simp
  ultimately show ?thesis using \<open>2 ^ Suc 1023 \<le> x\<close> by (simp add: exponent_def)
qed

lemma exponent_cap_lo: "0 < x \<Longrightarrow> x < pow2 (- 1022) \<Longrightarrow> exponent x = - 1022"
proof -
  assume pos: "0 < x" and small: "x < pow2 (- 1022)"
  have p: "pow2 (- 1022) = 1 / 2 ^ 1022" by (simp add: pow2_def)
  have "(1::real) / 2 ^ 1022 \<le> 1" by (simp add: field_simps)
  with small p have "\<not> 1 \<le> x" by simp
  moreover have "doublings x 1022 = 1022"
    using pos small p by (intro doublings_cap) simp_all
  ultimately show ?thesis by (simp add: exponent_def)
qed

lemma exponent_upper: "0 < x \<Longrightarrow> x < pow2 1024 \<Longrightarrow> x < pow2 (exponent x + 1)"
proof (cases "1 \<le> x")
  case True
  assume "x < pow2 1024"
  then have "x < 2 ^ Suc 1023" by (simp add: pow2_def)
  with True have "x < 2 ^ Suc (halvings x 1023)"
    using halvings_spec by blast
  also have "\<dots> = pow2 (int (halvings x 1023) + 1)"
    using pow2_nat [of "Suc (halvings x 1023)"] by (simp add: add.commute)
  finally show ?thesis using True by (simp add: exponent_def)
next
  case False
  assume pos: "0 < x"
  show ?thesis
  proof (cases "x < pow2 (- 1022)")
    case True
    with pos have e: "exponent x = - 1022" by (rule exponent_cap_lo)
    have "pow2 (- 1022) < pow2 (- 1021)" by simp
    with True have "x < pow2 (- 1021)" by linarith
    then show ?thesis by (simp add: e)
  next
    case big: False
    then have "1 / 2 ^ 1022 \<le> x" by (simp add: pow2_def)
    with pos False have "x < 2 / 2 ^ doublings x 1022"
      using doublings_spec [of x 1022] by simp
    also have "\<dots> = pow2 (1 - int (doublings x 1022))"
      by (simp only: pow2_diff pow2_nat) (simp add: pow2_def)
    finally show ?thesis using False by (simp add: exponent_def)
  qed
qed

lemma exponent_lower: "pow2 (- 1022) \<le> x \<Longrightarrow> pow2 (exponent x) \<le> x"
proof (cases "1 \<le> x")
  case True
  show ?thesis
  proof (cases "x < pow2 1024")
    case lt: True
    then have "x < 2 ^ Suc 1023" by (simp add: pow2_def)
    with True have "2 ^ halvings x 1023 \<le> x"
      using halvings_spec by blast
    then show ?thesis using True by (simp add: exponent_def pow2_nat)
  next
    case False
    then have e: "exponent x = 1023" by (intro exponent_cap_hi) simp
    have "pow2 1023 \<le> pow2 1024" by simp
    with False have "pow2 1023 \<le> x" by linarith
    then show ?thesis by (simp add: e)
  qed
next
  case False
  assume big: "pow2 (- 1022) \<le> x"
  then have pos: "0 < x" using pow2_pos [of "- 1022"] by linarith
  from big have "1 / 2 ^ 1022 \<le> x" by (simp add: pow2_def)
  with pos False have "1 / 2 ^ doublings x 1022 \<le> x"
    using doublings_spec [of x 1022] by simp
  moreover have "pow2 (- int (doublings x 1022)) = 1 / 2 ^ doublings x 1022"
    using pow2_diff [of 0 "int (doublings x 1022)"] by (simp add: pow2_nat)
  ultimately show ?thesis using False by (simp add: exponent_def)
qed

lemma round_even_of_int [simp]: "round_even (of_int k) = k"
  by (simp add: round_even_def)

lemma round_even_bounds: "\<lfloor>x\<rfloor> \<le> round_even x \<and> round_even x \<le> \<lfloor>x\<rfloor> + 1"
  by (simp add: round_even_def Let_def)

lemma round_even_mono: "x \<le> y \<Longrightarrow> round_even x \<le> round_even y"
proof (cases "\<lfloor>x\<rfloor> < \<lfloor>y\<rfloor>")
  case True
  then show ?thesis
    using round_even_bounds [of x] round_even_bounds [of y] by linarith
next
  case False
  assume le: "x \<le> y"
  then have "\<lfloor>x\<rfloor> \<le> \<lfloor>y\<rfloor>" by (rule floor_mono)
  with False have eq: "\<lfloor>x\<rfloor> = \<lfloor>y\<rfloor>" by simp
  with le have "x - of_int \<lfloor>x\<rfloor> \<le> y - of_int \<lfloor>y\<rfloor>" by simp
  then show ?thesis
    unfolding round_even_def Let_def eq by auto
qed

lemma round_even_ge: "of_int k \<le> x \<Longrightarrow> k \<le> round_even x"
  using round_even_mono [of "of_int k" x] by simp

lemma round_even_le: "x \<le> of_int k \<Longrightarrow> round_even x \<le> k"
  using round_even_mono [of x "of_int k"] by simp

lemma halvings_mono: "x \<le> y \<Longrightarrow> halvings x n \<le> halvings y n"
proof (induction x n arbitrary: y rule: halvings.induct)
  case (1 x)
  then show ?case by simp
next
  case (2 x n)
  show ?case
  proof (cases "x < 2")
    case True
    then show ?thesis by simp
  next
    case False
    with "2.prems" have "\<not> y < 2" by simp
    moreover from "2.prems" have "x / 2 \<le> y / 2" by simp
    ultimately show ?thesis using "2.IH" False by simp
  qed
qed

lemma doublings_mono: "x \<le> y \<Longrightarrow> doublings y n \<le> doublings x n"
proof (induction x n arbitrary: y rule: doublings.induct)
  case (1 x)
  then show ?case by simp
next
  case (2 x n)
  show ?case
  proof (cases "1 \<le> y")
    case True
    then show ?thesis by simp
  next
    case False
    with "2.prems" have "\<not> 1 \<le> x" by simp
    moreover from "2.prems" have "2 * x \<le> 2 * y" by simp
    ultimately show ?thesis using "2.IH" False by simp
  qed
qed

lemma exponent_mono: "x \<le> y \<Longrightarrow> exponent x \<le> exponent y"
proof (cases "1 \<le> x")
  case True
  assume "x \<le> y"
  with True show ?thesis by (simp add: exponent_def halvings_mono)
next
  case False
  assume "x \<le> y"
  then show ?thesis using False by (simp add: exponent_def doublings_mono)
qed

lemma quantum_range: "- 1074 \<le> quantum x \<and> quantum x \<le> 971"
  using exponent_range [of "\<bar>x\<bar>"] by (simp add: quantum_def)

lemma mantissa_nonneg: "0 \<le> mantissa x"
proof -
  have "0 \<le> \<bar>x\<bar> / pow2 (quantum x)"
    by (intro divide_nonneg_pos) simp_all
  then have "of_int 0 \<le> \<bar>x\<bar> / pow2 (quantum x)" by simp
  then show ?thesis unfolding mantissa_def by (rule round_even_ge)
qed

lemma pow2_53: "pow2 (k + 53) = 2 ^ 53 * pow2 k"
  using pow2_add [of 53 k] by (simp add: pow2_def add.commute)

lemma pow2_52: "pow2 (k + 52) = 2 ^ 52 * pow2 k"
  using pow2_add [of 52 k] by (simp add: pow2_def add.commute)

lemma mantissa_le: "x \<noteq> 0 \<Longrightarrow> \<bar>x\<bar> < pow2 1024 \<Longrightarrow> mantissa x \<le> 2 ^ 53"
proof -
  assume nz: "x \<noteq> 0" and fin: "\<bar>x\<bar> < pow2 1024"
  then have "\<bar>x\<bar> < pow2 (exponent \<bar>x\<bar> + 1)"
    by (intro exponent_upper) simp_all
  also have "exponent \<bar>x\<bar> + 1 = quantum x + 53" by (simp add: quantum_def)
  finally have "\<bar>x\<bar> < 2 ^ 53 * pow2 (quantum x)" by (simp only: pow2_53)
  then have "\<bar>x\<bar> / pow2 (quantum x) \<le> of_int (2 ^ 53)"
    by (simp add: field_simps)
  then show ?thesis unfolding mantissa_def by (rule round_even_le)
qed

lemma mantissa_ge_overflow: "pow2 1024 \<le> \<bar>x\<bar> \<Longrightarrow> quantum x = 971 \<and> 2 ^ 53 \<le> mantissa x"
proof -
  assume big: "pow2 1024 \<le> \<bar>x\<bar>"
  then have q: "quantum x = 971" by (simp add: quantum_def exponent_cap_hi)
  have "pow2 1024 = 2 ^ 53 * pow2 971" using pow2_53 [of 971] by simp
  with big have "of_int (2 ^ 53) \<le> \<bar>x\<bar> / pow2 (quantum x)"
    by (simp add: q field_simps)
  then have "2 ^ 53 \<le> mantissa x" unfolding mantissa_def by (rule round_even_ge)
  with q show ?thesis by simp
qed

lemma mantissa_ge: "pow2 (- 1022) \<le> \<bar>x\<bar> \<Longrightarrow> 2 ^ 52 \<le> mantissa x"
proof -
  assume big: "pow2 (- 1022) \<le> \<bar>x\<bar>"
  then have "pow2 (exponent \<bar>x\<bar>) \<le> \<bar>x\<bar>" by (rule exponent_lower)
  moreover have "exponent \<bar>x\<bar> = quantum x + 52" by (simp add: quantum_def)
  ultimately have "2 ^ 52 * pow2 (quantum x) \<le> \<bar>x\<bar>" by (simp only: pow2_52)
  then have "of_int (2 ^ 52) \<le> \<bar>x\<bar> / pow2 (quantum x)"
    by (simp add: field_simps)
  then show ?thesis unfolding mantissa_def by (rule round_even_ge)
qed

lemma rnd_overflow: "pow2 1024 \<le> x \<Longrightarrow> rnd x = PInf"
proof -
  assume big: "pow2 1024 \<le> x"
  have "0 < pow2 1024" by simp
  with big have pos: "0 < x" by linarith
  with big have "pow2 1024 \<le> \<bar>x\<bar>" by simp
  then have "quantum x = 971 \<and> 2 ^ 53 \<le> mantissa x" by (rule mantissa_ge_overflow)
  with pos show ?thesis by (simp add: rnd_def inf_of_def)
qed

lemma pow2_1024_split: "pow2 1024 = 2 ^ 53 * pow2 971"
  using pow2_53 [of 971] by simp

lemma pow2_nz [simp]: "pow2 k \<noteq> 0"
  using pow2_pos [of k] by linarith

lemma pow2_nonneg [simp]: "0 \<le> pow2 k"
  using pow2_pos [of k] by linarith

lemma pow2_abs [simp]: "\<bar>pow2 k\<bar> = pow2 k"
  using pow2_pos [of k] by linarith

lemma real_less_2p: "(i::int) < 2 ^ n \<Longrightarrow> real_of_int i < 2 ^ n"
proof -
  assume "i < 2 ^ n"
  then have "real_of_int i < real_of_int (2 ^ n)" by (simp only: of_int_less_iff)
  then show ?thesis by simp
qed

lemma real_ge_2p: "(2::int) ^ n \<le> i \<Longrightarrow> 2 ^ n \<le> real_of_int i"
proof -
  assume "2 ^ n \<le> i"
  then have "real_of_int (2 ^ n) \<le> real_of_int i" by (simp only: of_int_le_iff)
  then show ?thesis by simp
qed

lemma rnd_0 [simp]: "rnd 0 = Fin 0"
  by (simp add: rnd_def)

lemma rnd_exact:
  assumes x: "x = of_int m * pow2 q" and m: "\<bar>m\<bar> < 2 ^ 53" and q: "- 1074 \<le> q"
    and fin: "\<bar>x\<bar> < pow2 1024"
  shows "rnd x = Fin x"
proof (cases "m = 0")
  case True
  with x show ?thesis by simp
next
  case False
  with x have nz: "x \<noteq> 0" by simp
  have a: "\<bar>x\<bar> = of_int \<bar>m\<bar> * pow2 q"
    unfolding x by (simp add: abs_mult)
  have Qq: "quantum x \<le> q"
  proof (cases "\<bar>x\<bar> < pow2 (- 1022)")
    case True
    with nz have "exponent \<bar>x\<bar> = - 1022" by (intro exponent_cap_lo) simp_all
    with q show ?thesis by (simp add: quantum_def)
  next
    case False
    then have "pow2 (exponent \<bar>x\<bar>) \<le> \<bar>x\<bar>" by (intro exponent_lower) simp
    also have "\<bar>x\<bar> < 2 ^ 53 * pow2 q"
      unfolding a using real_less_2p [OF m] by (intro mult_strict_right_mono) simp_all
    also have "\<dots> = pow2 (q + 53)" by (simp only: pow2_53)
    finally have "exponent \<bar>x\<bar> < q + 53" by simp
    then show ?thesis by (simp add: quantum_def)
  qed
  define k where "k = \<bar>m\<bar> * 2 ^ nat (q - quantum x)"
  have split: "pow2 q = pow2 (q - quantum x) * pow2 (quantum x)"
    using pow2_add [of "q - quantum x" "quantum x"] by simp
  have nat: "pow2 (q - quantum x) = 2 ^ nat (q - quantum x)"
    using Qq by (simp add: pow2_def)
  have ak: "\<bar>x\<bar> = of_int k * pow2 (quantum x)"
    unfolding a k_def by (simp add: split nat)
  then have "\<bar>x\<bar> / pow2 (quantum x) = of_int k" by simp
  then have mk: "mantissa x = k" by (simp add: mantissa_def)
  have no: "\<not> (quantum x = 971 \<and> 2 ^ 53 \<le> mantissa x)"
  proof
    assume o: "quantum x = 971 \<and> 2 ^ 53 \<le> mantissa x"
    then have "2 ^ 53 \<le> k" using mk by simp
    then have "(2 ^ 53 :: real) \<le> of_int k" by (rule real_ge_2p)
    then have "2 ^ 53 * pow2 971 \<le> of_int k * pow2 971"
      by (intro mult_right_mono) simp_all
    with o ak have "pow2 1024 \<le> \<bar>x\<bar>" by (simp add: pow2_1024_split)
    with fin show False by simp
  qed
  have "sgn x * of_int (mantissa x) * pow2 (quantum x) = sgn x * \<bar>x\<bar>"
    by (simp add: mk ak)
  also have "\<dots> = x" by (simp add: sgn_mult_abs)
  finally show ?thesis using nz no by (auto simp: rnd_def)
qed

lemma rnd_int: "\<bar>n\<bar> \<le> 2 ^ 53 \<Longrightarrow> rnd (of_int n) = Fin (of_int n)"
proof (cases "\<bar>n\<bar> < 2 ^ 53")
  case True
  have "(2::real) ^ 53 < 2 ^ 1024" by (rule power_strict_increasing) simp_all
  moreover have "\<bar>real_of_int n\<bar> < 2 ^ 53"
    using real_less_2p [OF True] by simp
  ultimately have "\<bar>real_of_int n\<bar> < pow2 1024" by (simp add: pow2_def)
  then show ?thesis
    using True by (intro rnd_exact [where m = n and q = 0]) simp_all
next
  case False
  assume "\<bar>n\<bar> \<le> 2 ^ 53"
  with False have n: "n = 2 ^ 53 \<or> n = - (2 ^ 53)" by linarith
  have lt: "(2::real) ^ 53 < 2 ^ 1024" by (rule power_strict_increasing) simp_all
  from n show ?thesis
  proof
    assume "n = 2 ^ 53"
    moreover have "rnd (2 ^ 53) = Fin (2 ^ 53)"
      using lt by (intro rnd_exact [where m = "2 ^ 52" and q = 1]) (simp_all add: pow2_def)
    ultimately show ?thesis by simp
  next
    assume "n = - (2 ^ 53)"
    moreover have "rnd (- (2 ^ 53)) = Fin (- (2 ^ 53))"
      using lt by (intro rnd_exact [where m = "- (2 ^ 52)" and q = 1]) (simp_all add: pow2_def)
    ultimately show ?thesis by simp
  qed
qed

lemma rnd_nat: "n \<le> 2 ^ 53 \<Longrightarrow> rnd (real n) = Fin (real n)"
proof -
  assume "n \<le> 2 ^ 53"
  then have "int n \<le> int (2 ^ 53)" by (simp only: of_nat_le_iff)
  then have "\<bar>int n\<bar> \<le> 2 ^ 53" by simp
  from rnd_int [OF this] show ?thesis by simp
qed

lemma rnd_cases:
  assumes "x \<noteq> 0"
  shows "(quantum x = 971 \<and> 2 ^ 53 \<le> mantissa x \<and> rnd x = inf_of (0 < x))
       \<or> (\<not> (quantum x = 971 \<and> 2 ^ 53 \<le> mantissa x)
           \<and> rnd x = Fin (sgn x * of_int (mantissa x) * pow2 (quantum x)))"
  using assms by (auto simp: rnd_def)

lemma rnd_not_NaN: "rnd x \<noteq> NaN"
  by (simp add: rnd_def inf_of_def)

lemma rnd_idem:
  assumes r: "rnd x = Fin v"
  shows "rnd v = Fin v"
proof (cases "x = 0")
  case True
  with r show ?thesis by simp
next
  case False
  from rnd_cases [OF False] r
  have no: "\<not> (quantum x = 971 \<and> 2 ^ 53 \<le> mantissa x)"
    and v: "v = sgn x * of_int (mantissa x) * pow2 (quantum x)"
    by (auto simp: inf_of_def split: if_splits)
  define s :: int where "s = (if 0 < x then 1 else - 1)"
  have sg: "sgn x = of_int s" using False by (simp add: s_def sgn_if)
  have sabs: "\<bar>s\<bar> = 1" by (simp add: s_def)
  have fin: "\<bar>x\<bar> < pow2 1024"
    using mantissa_ge_overflow [of x] no by fastforce
  have le: "mantissa x \<le> 2 ^ 53" using False fin by (rule mantissa_le)
  have q: "- 1074 \<le> quantum x" "quantum x \<le> 971" using quantum_range [of x] by simp_all
  have vabs: "\<bar>v\<bar> = of_int (mantissa x) * pow2 (quantum x)"
    unfolding v using mantissa_nonneg [of x] False by (simp add: abs_mult)
  show ?thesis
  proof (cases "mantissa x < 2 ^ 53")
    case True
    have "of_int (mantissa x) * pow2 (quantum x) < 2 ^ 53 * pow2 (quantum x)"
      using real_less_2p [OF True] by (intro mult_strict_right_mono) simp_all
    also have "\<dots> \<le> 2 ^ 53 * pow2 971"
      using q(2) by (intro mult_left_mono) simp_all
    finally have "\<bar>v\<bar> < pow2 1024" by (simp add: vabs pow2_1024_split)
    moreover have "v = of_int (s * mantissa x) * pow2 (quantum x)"
      by (simp add: v sg)
    moreover have "\<bar>s * mantissa x\<bar> < 2 ^ 53"
      using True mantissa_nonneg [of x] by (simp add: abs_mult sabs)
    ultimately show ?thesis
      using q(1) by (intro rnd_exact [where m = "s * mantissa x" and q = "quantum x"]) simp_all
  next
    case big: False
    with le have m: "mantissa x = 2 ^ 53" by simp
    with no q(2) have q': "quantum x \<le> 970" by simp
    have half: "(2::real) ^ 53 * pow2 (quantum x) = 2 ^ 52 * pow2 (quantum x + 1)"
      using pow2_add [of "quantum x" 1] by (simp add: pow2_def)
    have "\<bar>v\<bar> = pow2 (quantum x + 53)"
      by (simp add: vabs m pow2_53)
    also have "\<dots> < pow2 1024" using q' by simp
    finally have "\<bar>v\<bar> < pow2 1024" .
    moreover have "v = of_int (s * 2 ^ 52) * pow2 (quantum x + 1)"
      using half by (simp add: v sg m)
    moreover have "\<bar>s * 2 ^ 52\<bar> < (2::int) ^ 53"
      by (simp add: abs_mult sabs)
    ultimately show ?thesis
      using q(1) by (intro rnd_exact [where m = "s * 2 ^ 52" and q = "quantum x + 1"]) simp_all
  qed
qed

lemma is_double_rnd: "is_double (rnd x)"
  by (cases "rnd x") (simp_all add: rnd_idem)

text \<open>Rounding is monotone on the non-negative numbers.\<close>

lemma quantum_mono: "0 < x \<Longrightarrow> x \<le> y \<Longrightarrow> quantum x \<le> quantum y"
  using exponent_mono [of "\<bar>x\<bar>" "\<bar>y\<bar>"] by (simp add: quantum_def)

lemma mantissa_mono:
  assumes "0 < x" "x \<le> y" "quantum x = quantum y"
  shows "mantissa x \<le> mantissa y"
proof -
  have "\<bar>x\<bar> / pow2 (quantum y) \<le> \<bar>y\<bar> / pow2 (quantum y)"
    using assms(1,2) by (intro divide_right_mono) simp_all
  then show ?thesis
    unfolding mantissa_def assms(3) by (rule round_even_mono)
qed

lemma rnd_pos:
  assumes "0 < x"
  shows "rnd x = (if quantum x = 971 \<and> 2 ^ 53 \<le> mantissa x then PInf
                  else Fin (of_int (mantissa x) * pow2 (quantum x)))"
  using assms by (simp add: rnd_def inf_of_def)

lemma value_mono:
  assumes x: "0 < x" and le: "x \<le> y"
  shows "of_int (mantissa x) * pow2 (quantum x) \<le> of_int (mantissa y) * pow2 (quantum y)"
proof (cases "quantum x = quantum y")
  case True
  have "mantissa x \<le> mantissa y" using x le True by (rule mantissa_mono)
  then have "real_of_int (mantissa x) \<le> real_of_int (mantissa y)" by simp
  then show ?thesis unfolding True by (intro mult_right_mono) simp_all
next
  case False
  with quantum_mono [OF x le] have lt: "quantum x + 1 \<le> quantum y" by simp
  have y: "0 < y" using x le by linarith
  have xfin: "\<bar>x\<bar> < pow2 1024"
  proof (rule ccontr)
    assume "\<not> \<bar>x\<bar> < pow2 1024"
    then have "quantum x = 971" using mantissa_ge_overflow [of x] by simp
    with lt quantum_range [of y] show False by simp
  qed
  have ybig: "pow2 (- 1022) \<le> \<bar>y\<bar>"
  proof (rule ccontr)
    assume "\<not> pow2 (- 1022) \<le> \<bar>y\<bar>"
    with y have "exponent \<bar>y\<bar> = - 1022" by (intro exponent_cap_lo) simp_all
    then have "quantum y = - 1074" by (simp add: quantum_def)
    with lt quantum_range [of x] show False by simp
  qed
  have "mantissa x \<le> 2 ^ 53" using x xfin by (intro mantissa_le) simp_all
  then have "real_of_int (mantissa x) \<le> real_of_int (2 ^ 53)" by (simp only: of_int_le_iff)
  then have "of_int (mantissa x) * pow2 (quantum x) \<le> 2 ^ 53 * pow2 (quantum x)"
    by (intro mult_right_mono) simp_all
  also have "\<dots> = pow2 (quantum x + 53)" by (simp only: pow2_53)
  also have "\<dots> \<le> pow2 (quantum y + 52)" using lt by simp
  also have "\<dots> = 2 ^ 52 * pow2 (quantum y)" by (simp only: pow2_52)
  also have "\<dots> \<le> of_int (mantissa y) * pow2 (quantum y)"
    using real_ge_2p [OF mantissa_ge [OF ybig]] by (intro mult_right_mono) simp_all
  finally show ?thesis .
qed

lemma rnd_mono:
  assumes x: "0 \<le> x" and le: "x \<le> y"
  shows "jle (rnd x) (rnd y)"
proof (cases "x = 0")
  case True
  show ?thesis
  proof (cases "y = 0")
    case True
    with \<open>x = 0\<close> show ?thesis by simp
  next
    case False
    with x le have y: "0 < y" by linarith
    have "0 \<le> of_int (mantissa y) * pow2 (quantum y)"
      using mantissa_nonneg [of y] by simp
    then show ?thesis using \<open>x = 0\<close> by (simp add: rnd_pos [OF y])
  qed
next
  case False
  with x have xp: "0 < x" by simp
  with le have yp: "0 < y" by linarith
  show ?thesis
  proof (cases "quantum y = 971 \<and> 2 ^ 53 \<le> mantissa y")
    case True
    then have "rnd y = PInf" by (simp add: rnd_pos [OF yp])
    then show ?thesis using rnd_not_NaN [of x] by (cases "rnd x") simp_all
  next
    case ny: False
    have nx: "\<not> (quantum x = 971 \<and> 2 ^ 53 \<le> mantissa x)"
    proof
      assume o: "quantum x = 971 \<and> 2 ^ 53 \<le> mantissa x"
      with quantum_mono [OF xp le] quantum_range [of y] have q: "quantum y = 971" by simp
      with o have "quantum x = quantum y" by simp
      with xp le have "mantissa x \<le> mantissa y" by (rule mantissa_mono)
      with o q ny show False by simp
    qed
    from value_mono [OF xp le] nx ny show ?thesis
      by (simp add: rnd_pos [OF xp] rnd_pos [OF yp])
  qed
qed

subsection \<open>Roundings that differ\<close>

text \<open>
  A rounded value is within half a unit in the last place of the exact one. So two
  non-negative numbers more than one such unit apart round to different numbers, and the
  multiples \<open>D * i\<close> and \<open>D * j\<close> of a positive number \<open>D\<close> of the language round to
  different numbers for \<open>i < j < 2^52\<close>.
\<close>

lemma round_even_near:
  "real_of_int (round_even z) \<le> z + 1 / 2 \<and> z - 1 / 2 \<le> real_of_int (round_even z)"
proof -
  define n where "n = \<lfloor>z\<rfloor>"
  have 1: "real_of_int n \<le> z" "z < real_of_int n + 1" unfolding n_def by linarith+
  have "round_even z = n \<and> z - real_of_int n \<le> 1 / 2
      \<or> round_even z = n + 1 \<and> 1 / 2 \<le> z - real_of_int n"
    by (auto simp: round_even_def Let_def n_def)
  then show ?thesis
  proof (elim disjE conjE)
    assume "round_even z = n" and h: "z - real_of_int n \<le> 1 / 2"
    then have e: "real_of_int (round_even z) = real_of_int n" by simp
    show ?thesis unfolding e using 1 h by (intro conjI) linarith+
  next
    assume "round_even z = n + 1" and h: "1 / 2 \<le> z - real_of_int n"
    then have e: "real_of_int (round_even z) = real_of_int n + 1" by simp
    show ?thesis unfolding e using 1 h by (intro conjI) linarith+
  qed
qed

lemma value_near:
  assumes "0 < x"
  shows "real_of_int (mantissa x) * pow2 (quantum x) \<le> x + pow2 (quantum x) / 2"
    and "x - pow2 (quantum x) / 2 \<le> real_of_int (mantissa x) * pow2 (quantum x)"
proof -
  let ?u = "pow2 (quantum x)"
  have u: "0 < ?u" by simp
  have m: "mantissa x = round_even (x / ?u)"
    using assms by (simp add: mantissa_def)
  from round_even_near [of "x / ?u"]
  have 1: "real_of_int (mantissa x) \<le> x / ?u + 1 / 2" and 2: "x / ?u - 1 / 2 \<le> real_of_int (mantissa x)"
    unfolding m by simp_all
  from 1 have "real_of_int (mantissa x) * ?u \<le> (x / ?u + 1 / 2) * ?u"
    using u by (simp only: mult_le_cancel_right_pos)
  also have "\<dots> = x + ?u / 2" using u by (simp add: field_simps)
  finally show "real_of_int (mantissa x) * ?u \<le> x + ?u / 2" .
  from 2 have "(x / ?u - 1 / 2) * ?u \<le> real_of_int (mantissa x) * ?u"
    using u by (simp only: mult_le_cancel_right_pos)
  moreover have "(x / ?u - 1 / 2) * ?u = x - ?u / 2" using u by (simp add: field_simps)
  ultimately show "x - ?u / 2 \<le> real_of_int (mantissa x) * ?u" by simp
qed

lemma rnd_finite_below:
  assumes x: "0 < x" and le: "x \<le> y" and y: "rnd y = Fin b"
  shows "rnd x = Fin (real_of_int (mantissa x) * pow2 (quantum x))"
proof -
  have "jle (rnd x) (rnd y)" using x le by (intro rnd_mono) simp_all
  then have "rnd x \<noteq> PInf" unfolding y by auto
  then show ?thesis using rnd_pos [OF x] by (auto split: if_splits)
qed

lemma rnd_strict:
  assumes x: "0 \<le> x" and gap: "x + pow2 (quantum y) < y" and y: "rnd y = Fin b"
  shows "\<exists>a. rnd x = Fin a \<and> a < b"
proof -
  let ?u = "pow2 (quantum y)"
  have u: "0 < ?u" by simp
  from x gap u have ypos: "0 < y" by linarith
  have "rnd y = Fin (real_of_int (mantissa y) * ?u)"
    using ypos order_refl y by (rule rnd_finite_below)
  with y have b: "b = real_of_int (mantissa y) * ?u" by simp
  have low: "y - ?u / 2 \<le> b" unfolding b using ypos by (rule value_near(2))
  show ?thesis
  proof (cases "x = 0")
    case True
    from gap True have "?u < y" by simp
    with low u have "0 < b" by linarith
    with True show ?thesis by simp
  next
    case False
    with x have xpos: "0 < x" by simp
    from gap u have le: "x \<le> y" by linarith
    let ?v = "pow2 (quantum x)"
    have a: "rnd x = Fin (real_of_int (mantissa x) * ?v)"
      using xpos le y by (rule rnd_finite_below)
    have "quantum x \<le> quantum y" using xpos le by (rule quantum_mono)
    then have vu: "?v \<le> ?u" by simp
    have "real_of_int (mantissa x) * ?v \<le> x + ?v / 2" using xpos by (rule value_near(1))
    with vu gap low have "real_of_int (mantissa x) * ?v < b" by linarith
    with a show ?thesis by simp
  qed
qed

lemma double_multiple:
  assumes D: "rnd D = Fin D" and pos: "0 < D"
  shows "\<exists>m. 0 < m \<and> D = real_of_int m * pow2 (- 1074)"
proof -
  have "rnd D = Fin (real_of_int (mantissa D) * pow2 (quantum D))"
    using pos order_refl D by (rule rnd_finite_below)
  with D have eq: "D = real_of_int (mantissa D) * pow2 (quantum D)" by simp
  have q: "- 1074 \<le> quantum D" using quantum_range [of D] by simp
  define t where "t = nat (quantum D + 1074)"
  have "quantum D = int t + (- 1074)" using q by (simp add: t_def)
  then have "pow2 (quantum D) = pow2 (int t) * pow2 (- 1074)"
    by (simp only: pow2_add)
  then have p: "pow2 (quantum D) = 2 ^ t * pow2 (- 1074)" by (simp only: pow2_nat)
  have "D = real_of_int (mantissa D * 2 ^ t) * pow2 (- 1074)"
    using eq p by simp
  moreover have "0 < mantissa D * 2 ^ t"
  proof -
    have "0 < real_of_int (mantissa D) * pow2 (quantum D)"
      using pos unfolding eq [symmetric] .
    then have "mantissa D \<noteq> 0" by auto
    with mantissa_nonneg [of D] have "0 < mantissa D" by linarith
    then show ?thesis by simp
  qed
  ultimately show ?thesis by blast
qed

lemma rnd_least_quantum:
  assumes y: "0 < y" and q: "quantum y = - 1074" and k: "y = real_of_int k * pow2 (- 1074)"
  shows "rnd y = Fin y"
proof -
  have "y / pow2 (- 1074) = real_of_int k" using k by simp
  then have "mantissa y = k" using y q by (simp add: mantissa_def)
  then show ?thesis using rnd_pos [OF y] q k by simp
qed

lemma quantum_gap:
  assumes y: "0 < y" and q: "quantum y \<noteq> - 1074"
  shows "2 ^ 52 * pow2 (quantum y) \<le> y"
proof -
  have "exponent y \<noteq> - 1022" using q y by (simp add: quantum_def)
  then have "\<not> y < pow2 (- 1022)" using exponent_cap_lo [OF y] by blast
  then have "pow2 (- 1022) \<le> y" by simp
  then have "pow2 (exponent y) \<le> y" by (rule exponent_lower)
  moreover have "exponent y = quantum y + 52" using y by (simp add: quantum_def)
  ultimately show ?thesis by (simp add: pow2_52)
qed

lemma offsets_strict:
  assumes D: "rnd D = Fin D" and pos: "0 < D" and ij: "i < j" and j: "j < 2 ^ 52"
    and fin: "rnd (D * real j) = Fin b"
  shows "\<exists>a. rnd (D * real i) = Fin a \<and> a < b"
proof (cases "quantum (D * real j) = - 1074")
  case True
  from double_multiple [OF D pos] obtain m where m: "0 < m" "D = real_of_int m * pow2 (- 1074)"
    by blast
  have jpos: "0 < real j" using ij by simp
  have ypos: "0 < D * real j" using pos jpos by simp
  have yk: "D * real j = real_of_int (m * int j) * pow2 (- 1074)" using m(2) by simp
  have ry: "rnd (D * real j) = Fin (D * real j)" using ypos True yk by (rule rnd_least_quantum)
  with fin have b: "b = D * real j" by simp
  have lt: "D * real i < D * real j" using pos ij by simp
  show ?thesis
  proof (cases "i = 0")
    case True
    then show ?thesis using ypos b by simp
  next
    case False
    then have xpos: "0 < D * real i" using pos by simp
    have "quantum (D * real i) \<le> quantum (D * real j)"
      using xpos lt by (intro quantum_mono) simp_all
    with True quantum_range [of "D * real i"] have qx: "quantum (D * real i) = - 1074" by simp
    have xk: "D * real i = real_of_int (m * int i) * pow2 (- 1074)" using m(2) by simp
    have "rnd (D * real i) = Fin (D * real i)" using xpos qx xk by (rule rnd_least_quantum)
    with lt b show ?thesis by simp
  qed
next
  case False
  have jpos: "0 < real j" using ij by simp
  have ypos: "0 < D * real j" using pos jpos by simp
  let ?u = "pow2 (quantum (D * real j))"
  have "2 ^ 52 * ?u \<le> D * real j" using ypos False by (rule quantum_gap)
  moreover have "real j < 2 ^ 52" using j by (metis of_nat_less_iff of_nat_numeral of_nat_power)
  then have "D * real j < D * 2 ^ 52" using pos by simp
  ultimately have "2 ^ 52 * ?u < 2 ^ 52 * D" by (simp add: mult.commute)
  then have uD: "?u < D" by simp
  have "Suc i \<le> j" using ij by simp
  then have "real (Suc i) \<le> real j" by (simp only: of_nat_le_iff)
  then have "real i + 1 \<le> real j" by simp
  then have "D * (real i + 1) \<le> D * real j" using pos by simp
  then have "D * real i + D \<le> D * real j" by (simp add: algebra_simps)
  with uD have gap: "D * real i + ?u < D * real j" by linarith
  have x: "0 \<le> D * real i" using pos by simp
  from x gap fin show ?thesis by (rule rnd_strict)
qed

subsection \<open>Evaluating a rounding\<close>

lemma halvings_numeral:
  "halvings x (numeral k) = (if x < 2 then 0 else Suc (halvings (x / 2) (pred_numeral k)))"
  by (simp add: numeral_eq_Suc)

lemma doublings_numeral:
  "doublings x (numeral k) = (if 1 \<le> x then 0 else Suc (doublings (2 * x) (pred_numeral k)))"
  by (simp add: numeral_eq_Suc)

lemmas rnd_eval =
  rnd_def lit_def quantum_def mantissa_def exponent_def halvings_numeral doublings_numeral
  round_even_def pow2_def inf_of_def Let_def

section \<open>Facts about the numbers and the viewport\<close>

lemma jle_refl: "x \<noteq> NaN \<Longrightarrow> jle x x"
  by (cases x) simp_all

lemma jle_antisym: "jle x y \<Longrightarrow> jle y x \<Longrightarrow> x = y"
  by (cases x; cases y) simp_all

lemma jle_total: "x \<noteq> NaN \<Longrightarrow> y \<noteq> NaN \<Longrightarrow> jle x y \<or> jle y x"
  by (cases x; cases y) auto

lemma Math_min_commute: "Math_min x y = Math_min y x"
  using jle_antisym jle_total by (auto simp: Math_min_def)

lemma Math_max_commute: "Math_max x y = Math_max y x"
  using jle_antisym jle_total by (auto simp: Math_max_def)

lemma Math_min_le_max: "x \<noteq> NaN \<Longrightarrow> y \<noteq> NaN \<Longrightarrow> jle (Math_min x y) (Math_max x y)"
  using jle_total jle_refl by (auto simp: Math_min_def Math_max_def)

text \<open>
  Claim C3, as stated, at a corner whose expression has no numeric value: \<^verbatim>\<open>Math.min\<close> and
  \<^verbatim>\<open>Math.max\<close> both return \<^verbatim>\<open>NaN\<close>, and \<^verbatim>\<open>NaN <= NaN\<close> is false, so \<open>left \<le> right\<close> fails.
\<close>

theorem getMathBounds_NaN_counterexample:
  "\<not> jle (left (getMathBounds nan_corner)) (right (getMathBounds nan_corner))"
  by (simp add: getMathBounds_def nan_corner_def Math_min_def Math_max_def)

text \<open>
  Claim C3 (Viewport Resolver), amended. The rectangle returned by \<^verbatim>\<open>getMathBounds\<close> does not
  change when \<open>x1\<close> and \<open>x2\<close>, or \<open>y1\<close> and \<open>y2\<close>, are swapped, whatever the four values
  are. \<open>left \<le> right\<close> holds when neither \<open>x1\<close> nor \<open>x2\<close> is \<^verbatim>\<open>NaN\<close>, and \<open>bottom \<le> top\<close>
  when neither \<open>y1\<close> nor \<open>y2\<close> is.
\<close>

theorem getMathBounds_normalised:
  "getMathBounds (b\<lparr>x1 := x2 b, x2 := x1 b\<rparr>) = getMathBounds b
   \<and> getMathBounds (b\<lparr>y1 := y2 b, y2 := y1 b\<rparr>) = getMathBounds b
   \<and> (x1 b \<noteq> NaN \<and> x2 b \<noteq> NaN \<longrightarrow> jle (left (getMathBounds b)) (right (getMathBounds b)))
   \<and> (y1 b \<noteq> NaN \<and> y2 b \<noteq> NaN \<longrightarrow> jle (bottom (getMathBounds b)) (top' (getMathBounds b)))"
proof -
  have "getMathBounds (b\<lparr>x1 := x2 b, x2 := x1 b\<rparr>) = getMathBounds b"
    by (simp add: getMathBounds_def Math_min_commute [of "x2 b"] Math_max_commute [of "x2 b"])
  moreover have "getMathBounds (b\<lparr>y1 := y2 b, y2 := y1 b\<rparr>) = getMathBounds b"
    by (simp add: getMathBounds_def Math_min_commute [of "y2 b"] Math_max_commute [of "y2 b"])
  moreover have "x1 b \<noteq> NaN \<and> x2 b \<noteq> NaN \<longrightarrow> jle (left (getMathBounds b)) (right (getMathBounds b))"
    by (simp add: getMathBounds_def Math_min_le_max)
  moreover have "y1 b \<noteq> NaN \<and> y2 b \<noteq> NaN \<longrightarrow> jle (bottom (getMathBounds b)) (top' (getMathBounds b))"
    by (simp add: getMathBounds_def Math_min_le_max)
  ultimately show ?thesis by blast
qed

text \<open>The theorem of C3 at corners dragged past each other: the rectangle is put in order.\<close>

theorem getMathBounds_normalised_witness:
  "getMathBounds (dragged_bounds\<lparr>x1 := Fin (-4), x2 := Fin 7\<rparr>) = getMathBounds dragged_bounds
   \<and> getMathBounds dragged_bounds = \<lparr> left = Fin (-4), right = Fin 7, bottom = Fin (-2), top' = Fin 3 \<rparr>
   \<and> jle (left (getMathBounds dragged_bounds)) (right (getMathBounds dragged_bounds))
   \<and> jle (bottom (getMathBounds dragged_bounds)) (top' (getMathBounds dragged_bounds))"
  using getMathBounds_normalised [of dragged_bounds]
  by (simp add: dragged_bounds_def getMathBounds_def Math_min_def Math_max_def)

section \<open>Facts about the session and \<^verbatim>\<open>captureFrames\<close>\<close>

lemma id_update_expr [simp]: "id' (update_expr p e) = id' e"
  by (simp add: update_expr_def)

lemma id_create_expr [simp]: "id' (create_expr p) = set_id p"
  by (simp add: create_expr_def)

lemma find_id_Nil [simp]: "find_id i [] = None"
  by (simp add: find_id_def)

lemma find_id_Cons [simp]:
  "find_id i (e # es) = (if id' e = i then Some e else find_id i es)"
  by (simp add: find_id_def)

lemma find_id_set_same:
  "find_id (set_id p) (set_in_list p es)
     = Some (case find_id (set_id p) es of None \<Rightarrow> create_expr p | Some e \<Rightarrow> update_expr p e)"
  by (induction es) auto

lemma find_id_set_other:
  "set_id p \<noteq> i \<Longrightarrow> find_id i (set_in_list p es) = find_id i es"
  by (induction es) auto

lemma ids_set_in_list:
  "set (map id' (set_in_list p es)) = insert (set_id p) (set (map id' es))"
  by (induction es) auto

lemma ids_set_in_list_image:
  "id' ` set (set_in_list p es) = insert (set_id p) (id' ` set es)"
  using ids_set_in_list [of p es] by simp

lemma distinct_set_in_list:
  "distinct (map id' es) \<Longrightarrow> distinct (map id' (set_in_list p es))"
  by (induction es) (auto simp: ids_set_in_list_image)

lemma set_id_object [simp]: "set_id (object i) = i"
  by (simp add: object_def)

lemma settings_setExpression [simp]: "settings (setExpression p c) = settings c"
  by (simp add: setExpression_def)

lemma expressions_setExpression [simp]:
  "expressions (setExpression p c) = set_in_list p (expressions c)"
  by (simp add: setExpression_def)

lemma capture_loop_frame:
  "capture_loop env s opts mn mx todo c fs = (c', r) \<Longrightarrow>
     settings c' = settings c
     \<and> find_id ''bounds'' (expressions c') = find_id ''bounds'' (expressions c)"
proof (induction todo arbitrary: c fs)
  case Nil
  then show ?case by simp
next
  case (Cons i todo)
  let ?c = "setExpression ((object ''bounds time'')\<lparr>set_latex := Some (TimeTemplate (sample_time s mn mx i))\<rparr>) c"
  have step: "settings ?c = settings c
    \<and> find_id ''bounds'' (expressions ?c) = find_id ''bounds'' (expressions c)"
    by (simp add: find_id_set_other)
  show ?case
  proof (cases "screenshot env ?c opts")
    case (Resolved url)
    with Cons.prems have "capture_loop env s opts mn mx todo ?c (fs @ [url]) = (c', r)"
      by (simp add: Let_def)
    from Cons.IH [OF this] step show ?thesis by simp
  next
    case (Rejected e)
    with Cons.prems have "c' = ?c" by (simp add: Let_def)
    with step show ?thesis by simp
  next
    case Pending
    with Cons.prems have "c' = ?c" by (simp add: Let_def)
    with step show ?thesis by simp
  qed
qed

lemma capture_loop_length:
  "capture_loop env s opts mn mx todo c fs = (c', Resolved fs') \<Longrightarrow>
     length fs' = length fs + length todo"
proof (induction todo arbitrary: c fs)
  case Nil
  then show ?case by simp
next
  case (Cons i todo)
  then show ?case
    by (auto simp: Let_def split: outcome.splits)
qed

lemma time_binding_set:
  "time_binding (setExpression ((object ''bounds time'')\<lparr>set_latex := Some l\<rparr>) c) = Some l"
proof -
  let ?p = "(object ''bounds time'')\<lparr>set_latex := Some l\<rparr>"
  have "set_id ?p = ''bounds time''" by simp
  then have "find_id ''bounds time'' (set_in_list ?p (expressions c))
     = Some (case find_id ''bounds time'' (expressions c) of None \<Rightarrow> create_expr ?p | Some e \<Rightarrow> update_expr ?p e)"
    using find_id_set_same [of ?p "expressions c"] by simp
  then show ?thesis
    by (simp add: time_binding_def update_expr_def create_expr_def split: option.splits)
qed

lemma capture_loop_last:
  "capture_loop env s opts mn mx todo c fs = (c', Resolved fs') \<Longrightarrow> todo \<noteq> [] \<Longrightarrow>
     time_binding c' = Some (TimeTemplate (sample_time s mn mx (last todo)))"
proof (induction todo arbitrary: c fs)
  case Nil
  then show ?case by simp
next
  case (Cons i todo)
  let ?c = "setExpression ((object ''bounds time'')\<lparr>set_latex := Some (TimeTemplate (sample_time s mn mx i))\<rparr>) c"
  from Cons.prems(1) obtain url where url: "screenshot env ?c opts = Resolved url"
    and rest: "capture_loop env s opts mn mx todo ?c (fs @ [url]) = (c', Resolved fs')"
    by (auto simp: Let_def split: outcome.splits)
  show ?case
  proof (cases "todo = []")
    case True
    with rest have "c' = ?c" by simp
    with True show ?thesis by (simp add: time_binding_set)
  next
    case False
    with Cons.IH [OF rest] show ?thesis by simp
  qed
qed

lemma foldl_notify:
  "foldl notify ev ns =
     (if observing ev
      then ev\<lparr>resolved_with :=
                (case resolved_with ev of
                   Some w \<Rightarrow> Some w
                 | None \<Rightarrow> (case ns of [] \<Rightarrow> None | v # vs \<Rightarrow> Some v)),
              calls := calls ev + length ns\<rparr>
      else ev)"
proof (induction ns arbitrary: ev)
  case Nil
  then show ?case by (simp split: option.splits)
next
  case (Cons v ns)
  show ?case
    by (simp add: Cons.IH) (simp add: notify_def res_def split: option.splits)
qed

lemma evaluate_first:
  "evaluate env c l =
     (case notifications env c (l @ ''+0'') of [] \<Rightarrow> Pending | v # vs \<Rightarrow> Resolved v)"
  by (simp add: evaluate_def Let_def foldl_notify)
     (simp add: evaluate_call_def split: list.splits)

lemma chrome_hide_chrome:
  "find_id ''bounds'' (expressions c) = Some folder \<Longrightarrow>
     chrome (hide_chrome c) = (False, False, False, Some True)"
proof -
  assume f: "find_id ''bounds'' (expressions c) = Some folder"
  let ?p = "(object ''bounds'')\<lparr>set_hidden := Some True\<rparr>"
  have "find_id ''bounds'' (set_in_list ?p (expressions c)) = Some (update_expr ?p folder)"
    using find_id_set_same [of ?p "expressions c"] f by simp
  then show ?thesis
    by (simp add: chrome_def hide_chrome_def updateSettings_def update_expr_def)
qed

lemma chrome_restore:
  "find_id ''bounds'' (expressions c) = Some e \<Longrightarrow>
     chrome (updateSettings g (setExpression ((object ''bounds'')\<lparr>set_hidden := Some h\<rparr>) c))
       = (showGrid g, showXAxis g, showYAxis g, Some h)"
proof -
  assume f: "find_id ''bounds'' (expressions c) = Some e"
  let ?p = "(object ''bounds'')\<lparr>set_hidden := Some h\<rparr>"
  have "find_id ''bounds'' (set_in_list ?p (expressions c)) = Some (update_expr ?p e)"
    using find_id_set_same [of ?p "expressions c"] f by simp
  then show ?thesis
    by (simp add: chrome_def updateSettings_def update_expr_def)
qed

lemma chrome_capture_loop:
  "capture_loop env s opts mn mx todo c fs = (c', r) \<Longrightarrow> chrome c' = chrome c"
  using capture_loop_frame [of env s opts mn mx todo c fs c' r] by (simp add: chrome_def)

text \<open>
  Claim C2 (chrome restoration), amended. When \<^verbatim>\<open>captureFrames\<close> returns its frames, the
  chrome equals the snapshot taken before. When it fails because the session has no folder
  \<^verbatim>\<open>bounds\<close>, nothing has been hidden yet and the chrome is unchanged. After any other
  failure, and when an awaited value never arrives, grid and axes are left off and the
  folder is left hidden.
\<close>

theorem captureFrames_chrome:
  assumes run: "captureFrames env c s opts = (c', r)"
  shows "chrome c' =
           (case r of
              Resolved fs \<Rightarrow> chrome c
            | Rejected e \<Rightarrow>
                if find_id ''bounds'' (expressions c) = None then chrome c
                else (False, False, False, Some True)
            | Pending \<Rightarrow> (False, False, False, Some True))"
proof (cases "find_id ''bounds'' (expressions c)")
  case None
  with run show ?thesis by (auto simp: captureFrames_def getExpressions_def)
next
  case (Some folder)
  note hid = chrome_hide_chrome [OF Some]
  have snap: "chrome c = (showGrid (settings c), showXAxis (settings c), showYAxis (settings c), Some (hidden folder))"
    using Some by (simp add: chrome_def)
  show ?thesis
  proof (cases "find_id ''bounds time'' (expressions c)")
    case None
    with run Some hid show ?thesis by (auto simp: captureFrames_def getExpressions_def)
  next
    case slider: (Some slider)
    show ?thesis
    proof (cases "sliderBounds slider")
      case None
      with run Some slider hid show ?thesis by (auto simp: captureFrames_def getExpressions_def)
    next
      case sb: (Some p)
      obtain smin smax where p: "p = (smin, smax)" by (cases p)
      show ?thesis
      proof (cases "evaluate env (hide_chrome c) smin")
        case (Rejected e)
        with run Some slider sb p hid show ?thesis by (auto simp: captureFrames_def getExpressions_def)
      next
        case Pending
        with run Some slider sb p hid show ?thesis by (auto simp: captureFrames_def getExpressions_def)
      next
        case mn: (Resolved mn)
        show ?thesis
        proof (cases "evaluate env (hide_chrome c) smax")
          case (Rejected e)
          with run Some slider sb p mn hid show ?thesis by (auto simp: captureFrames_def getExpressions_def)
        next
          case Pending
          with run Some slider sb p mn hid show ?thesis by (auto simp: captureFrames_def getExpressions_def)
        next
          case mx: (Resolved mx)
          obtain c3 r3 where loop: "capture_loop env s opts mn mx [0..<frames s] (hide_chrome c) [] = (c3, r3)"
            by (cases "capture_loop env s opts mn mx [0..<frames s] (hide_chrome c) []")
          have c3: "chrome c3 = (False, False, False, Some True)"
            using chrome_capture_loop [OF loop] hid by simp
          then obtain e3 where e3: "find_id ''bounds'' (expressions c3) = Some e3"
            by (auto simp: chrome_def)
          show ?thesis
          proof (cases r3)
            case (Resolved fs)
            with run Some slider sb p mn mx loop
            have "c' = updateSettings (settings c) (setExpression ((object ''bounds'')\<lparr>set_hidden := Some (hidden folder)\<rparr>) c3)"
              and "r = Resolved fs"
              by (simp_all add: captureFrames_def getExpressions_def)
            then show ?thesis using chrome_restore [OF e3] snap by simp
          next
            case (Rejected e)
            with run Some slider sb p mn mx loop c3 show ?thesis
              by (auto simp: captureFrames_def getExpressions_def)
          next
            case Pending
            with run Some slider sb p mn mx loop c3 show ?thesis
              by (auto simp: captureFrames_def getExpressions_def)
          qed
        qed
      qed
    qed
  qed
qed

subsection \<open>Runs on the example sessions\<close>

lemmas run_simps =
  captureFrames_def getExpressions_def hide_chrome_def updateSettings_def
  evaluate_first screenshot_def sample_time_def jsub_def rnd_eval
  create_expr_def update_expr_def object_def time_slider_def
  chrome_def time_binding_def all_shown_def host0_def Let_def

text \<open>
  Claim C2, as stated, on a session whose time slider is missing: line 145 throws after
  lines 141 and 142 have hidden the chrome, and nothing restores it.
\<close>

theorem captureFrames_chrome_counterexample:
  "chrome (fst (captureFrames host0 folder_only script_settings opts0)) \<noteq> chrome folder_only"
  by (simp add: folder_only_def run_simps)

lemma upt_2: "[0..<2] = [0, 1]"
  by (simp add: upt_rec)

lemma run_two_frames:
  "captureFrames host0 folder_and_slider (script_settings\<lparr>frames := 2\<rparr>) opts0
   = (folder_and_slider\<lparr>expressions :=
        [create_expr ((object ''bounds'')\<lparr>set_type := Some ''folder''\<rparr>),
         (create_expr time_slider)\<lparr>latex := Some (TimeTemplate (Fin 1))\<rparr>]\<rparr>,
      Resolved [''data:image/png'', ''data:image/png''])"
  by (simp add: folder_and_slider_def run_simps upt_2)

text \<open>The theorem of C2 on a run of two frames that succeeds.\<close>

theorem captureFrames_chrome_witness:
  "chrome (fst (captureFrames host0 folder_and_slider (script_settings\<lparr>frames := 2\<rparr>) opts0))
     = chrome folder_and_slider
   \<and> snd (captureFrames host0 folder_and_slider (script_settings\<lparr>frames := 2\<rparr>) opts0)
     = Resolved [''data:image/png'', ''data:image/png'']"
  using captureFrames_chrome [OF run_two_frames] by (simp add: run_two_frames)

lemma run_one_frame:
  "captureFrames host0 folder_and_slider (script_settings\<lparr>frames := 1\<rparr>) opts0
   = (folder_and_slider\<lparr>expressions :=
        [create_expr ((object ''bounds'')\<lparr>set_type := Some ''folder''\<rparr>),
         (create_expr time_slider)\<lparr>latex := Some (TimeTemplate NaN)\<rparr>]\<rparr>,
      Resolved [''data:image/png''])"
  by (simp add: folder_and_slider_def run_simps)

lemma last_upt_frames: "0 < n \<Longrightarrow> last [0..<n] = n - 1"
  by (cases n) simp_all

lemma time_binding_restore:
  "time_binding (updateSettings g (setExpression ((object ''bounds'')\<lparr>set_hidden := Some h\<rparr>) c))
     = time_binding c"
  by (simp add: time_binding_def updateSettings_def find_id_set_other)

text \<open>
  Claim C1 (Frame Sampler), at one frame. The run takes one screenshot, and the time it
  assigns is \<^verbatim>\<open>0 + (0 / (1 - 1)) * (1 - 0)\<close>, which is \<^verbatim>\<open>NaN\<close> and not the minimum 0: the
  division by zero is not avoided.
\<close>

theorem captureFrames_single_frame:
  "snd (captureFrames host0 folder_and_slider (script_settings\<lparr>frames := 1\<rparr>) opts0)
     = Resolved [''data:image/png'']
   \<and> time_binding (fst (captureFrames host0 folder_and_slider (script_settings\<lparr>frames := 1\<rparr>) opts0))
     = Some (TimeTemplate NaN)
   \<and> evaluate host0 (hide_chrome folder_and_slider) ''0'' = Resolved (Fin 0)
   \<and> sample_time (script_settings\<lparr>frames := 1\<rparr>) (Fin 0) (Fin 1) 0 = NaN"
  unfolding run_one_frame
  by (simp add: time_binding_def create_expr_def object_def time_slider_def
      evaluate_first host0_def sample_time_def jsub_def)

subsection \<open>The last sample\<close>

lemma is_double_jadd: "is_double (jadd x y)"
  by (cases x; cases y) (simp_all add: is_double_rnd)

lemma is_double_jsub: "is_double (jsub x y)"
  by (simp add: jsub_def is_double_jadd)

lemma jmul_one: "is_double y \<Longrightarrow> jmul (Fin 1) y = y"
  by (cases y) (simp_all add: inf_of_def)

lemma rnd_1: "rnd 1 = Fin 1"
  using rnd_nat [of 1] by simp

lemma last_ratio:
  assumes "2 \<le> n" and "n \<le> 2 ^ 53"
  shows "jdiv (Fin (real (n - 1))) (jsub (Fin (real n)) (Fin 1)) = Fin 1"
proof -
  have "n - 1 \<le> 2 ^ 53" using assms(2) by simp
  then have exact: "rnd (real (n - 1)) = Fin (real (n - 1))" by (rule rnd_nat)
  have "jsub (Fin (real n)) (Fin 1) = rnd (real n - 1)"
    by (simp add: jsub_def)
  also have "real n - 1 = real (n - 1)"
    using assms(1) by (simp add: of_nat_diff)
  finally have d: "jsub (Fin (real n)) (Fin 1) = Fin (real (n - 1))"
    by (simp only: exact)
  have nz: "real (n - 1) \<noteq> 0" using assms(1) by simp
  have "jdiv (Fin (real (n - 1))) (Fin (real (n - 1))) = Fin 1"
    using nz by (simp add: rnd_1)
  then show ?thesis by (simp only: d)
qed

lemma sample_time_last:
  assumes "2 \<le> frames s" and "frames s \<le> 2 ^ 53"
  shows "sample_time s mn mx (frames s - 1) = jadd mn (jsub mx mn)"
  unfolding sample_time_def last_ratio [OF assms]
  by (simp add: jmul_one is_double_jsub)

lemma from_zero: "is_double mx \<Longrightarrow> jadd (Fin 0) (jsub mx (Fin 0)) = mx"
  by (cases mx) (simp_all add: jsub_def)

lemma captureFrames_length:
  assumes run: "captureFrames env c s opts = (c', Resolved fs)"
  shows "length fs = frames s"
proof -
  from run obtain folder where folder: "find_id ''bounds'' (expressions c) = Some folder"
    by (cases "find_id ''bounds'' (expressions c)") (auto simp: captureFrames_def getExpressions_def)
  from run folder obtain slider where slider: "find_id ''bounds time'' (expressions c) = Some slider"
    by (cases "find_id ''bounds time'' (expressions c)") (auto simp: captureFrames_def getExpressions_def)
  from run folder slider obtain smin smax where sb: "sliderBounds slider = Some (smin, smax)"
    by (cases "sliderBounds slider") (auto simp: captureFrames_def getExpressions_def)
  from run folder slider sb obtain mn where mn: "evaluate env (hide_chrome c) smin = Resolved mn"
    by (cases "evaluate env (hide_chrome c) smin") (auto simp: captureFrames_def getExpressions_def)
  from run folder slider sb mn obtain mx where mx: "evaluate env (hide_chrome c) smax = Resolved mx"
    by (cases "evaluate env (hide_chrome c) smax") (auto simp: captureFrames_def getExpressions_def)
  obtain c3 r3 where loop: "capture_loop env s opts mn mx [0..<frames s] (hide_chrome c) [] = (c3, r3)"
    by (cases "capture_loop env s opts mn mx [0..<frames s] (hide_chrome c) []")
  from run folder slider sb mn mx loop have "r3 = Resolved fs"
    by (cases r3) (auto simp: captureFrames_def getExpressions_def)
  with loop capture_loop_length [of env s opts mn mx "[0..<frames s]" "hide_chrome c" "[]" c3 fs]
  show ?thesis by simp
qed

text \<open>
  Claim C9 (the time binding after a run), amended. After a run of \<^verbatim>\<open>captureFrames\<close> that
  returns its frames, for two frames or more, the time binding is the template of the last
  sample, \<open>sample_time s mn mx (frames s - 1)\<close>, whatever it was before: lines 155 and 156
  restore the grid, the axes and the folder, and nothing restores the time binding. For a
  count of frames up to \<open>2^53\<close> the last sample is \<^verbatim>\<open>min + (max - min)\<close> in floating point.
  That is the evaluated maximum when the minimum is 0, as it is for the slider that
  \<^verbatim>\<open>setup\<close> creates; it is not the maximum for every range. The run returns as many
  frames as the settings ask for.
\<close>

theorem captureFrames_leaves_time_at_last_sample:
  assumes run: "captureFrames env c s opts = (c', Resolved fs)"
    and n: "2 \<le> frames s"
    and slider: "find_id ''bounds time'' (expressions c) = Some slider"
    and sb: "sliderBounds slider = Some (smin, smax)"
    and mn: "evaluate env (hide_chrome c) smin = Resolved mn"
    and mx: "evaluate env (hide_chrome c) smax = Resolved mx"
  shows "time_binding c' = Some (TimeTemplate (sample_time s mn mx (frames s - 1)))
         \<and> (frames s \<le> 2 ^ 53 \<longrightarrow>
              time_binding c' = Some (TimeTemplate (jadd mn (jsub mx mn))))
         \<and> (frames s \<le> 2 ^ 53 \<and> mn = Fin 0 \<and> is_double mx \<longrightarrow>
              time_binding c' = Some (TimeTemplate mx))
         \<and> length fs = frames s"
proof -
  obtain folder where folder: "find_id ''bounds'' (expressions c) = Some folder"
    using run by (cases "find_id ''bounds'' (expressions c)") (auto simp: captureFrames_def getExpressions_def)
  obtain c3 r3 where loop: "capture_loop env s opts mn mx [0..<frames s] (hide_chrome c) [] = (c3, r3)"
    by (cases "capture_loop env s opts mn mx [0..<frames s] (hide_chrome c) []")
  from run folder slider sb mn mx loop have r3: "r3 = Resolved fs"
    by (cases r3) (auto simp: captureFrames_def getExpressions_def)
  from run folder slider sb mn mx loop r3
  have c': "c' = updateSettings (settings c) (setExpression ((object ''bounds'')\<lparr>set_hidden := Some (hidden folder)\<rparr>) c3)"
    by (auto simp: captureFrames_def getExpressions_def)
  from n have ne: "[0..<frames s] \<noteq> []" by simp
  have "last [0..<frames s] = frames s - 1"
    using n by (intro last_upt_frames) simp
  then have "time_binding c3 = Some (TimeTemplate (sample_time s mn mx (frames s - 1)))"
    using capture_loop_last [OF loop [unfolded r3] ne] by metis
  then have t: "time_binding c' = Some (TimeTemplate (sample_time s mn mx (frames s - 1)))"
    by (simp add: c' time_binding_restore)
  moreover have "frames s \<le> 2 ^ 53 \<longrightarrow>
      time_binding c' = Some (TimeTemplate (jadd mn (jsub mx mn)))"
    using t sample_time_last [OF n, of mn mx] by simp
  moreover have "frames s \<le> 2 ^ 53 \<and> mn = Fin 0 \<and> is_double mx \<longrightarrow>
      time_binding c' = Some (TimeTemplate mx)"
    using t sample_time_last [OF n, of mn mx] by (auto simp: from_zero)
  moreover have "length fs = frames s"
    using run by (rule captureFrames_length)
  ultimately show ?thesis by blast
qed

text \<open>
  The theorem of C9 on a run of two frames over the default slider: the time binding was
  the literal \<^verbatim>\<open>t_{ime}=0\<close> and is left at the template of 1.
\<close>

theorem captureFrames_leaves_time_at_last_sample_witness:
  "time_binding folder_and_slider = Some (Literal ''t_{ime}=0'')
   \<and> time_binding (fst (captureFrames host0 folder_and_slider (script_settings\<lparr>frames := 2\<rparr>) opts0))
       = Some (TimeTemplate (Fin 1))"
proof -
  have before: "time_binding folder_and_slider = Some (Literal ''t_{ime}=0'')"
    by (simp add: folder_and_slider_def run_simps)
  have n: "2 \<le> frames (script_settings\<lparr>frames := 2\<rparr>)"
    by simp
  have slider: "find_id ''bounds time'' (expressions folder_and_slider) = Some (create_expr time_slider)"
    by (simp add: folder_and_slider_def create_expr_def object_def time_slider_def)
  have sb: "sliderBounds (create_expr time_slider) = Some (''0'', ''1'')"
    by (simp add: create_expr_def object_def time_slider_def)
  have mn: "evaluate host0 (hide_chrome folder_and_slider) ''0'' = Resolved (Fin 0)"
    by (simp add: evaluate_first host0_def)
  have mx: "evaluate host0 (hide_chrome folder_and_slider) ''1'' = Resolved (Fin 1)"
    by (simp add: evaluate_first host0_def)
  have small: "frames (script_settings\<lparr>frames := 2\<rparr>) \<le> 2 ^ 53" by simp
  have one: "is_double (Fin 1)" by (simp add: rnd_1)
  let ?c' = "folder_and_slider\<lparr>expressions :=
        [create_expr ((object ''bounds'')\<lparr>set_type := Some ''folder''\<rparr>),
         (create_expr time_slider)\<lparr>latex := Some (TimeTemplate (Fin 1))\<rparr>]\<rparr>"
  from captureFrames_leaves_time_at_last_sample [OF run_two_frames n slider sb mn mx] small one
  have "time_binding ?c' = Some (TimeTemplate (Fin 1))"
    by blast
  with before show ?thesis unfolding run_two_frames by simp
qed

lemma run_range:
  "captureFrames range_host range_session (script_settings\<lparr>frames := 2\<rparr>) opts0
   = (range_session\<lparr>expressions :=
        [create_expr ((object ''bounds'')\<lparr>set_type := Some ''folder''\<rparr>),
         (create_expr (time_slider\<lparr>set_sliderBounds := Some (''0.2'', ''0.9'')\<rparr>))
           \<lparr>latex := Some (TimeTemplate (Fin (2026619832316723 / 2 ^ 51)))\<rparr>]\<rparr>,
      Resolved [''data:image/png'', ''data:image/png''])"
  by (simp add: range_session_def range_host_def run_simps upt_2)

text \<open>
  Claim C9, as stated, on a slider from 0.2 to 0.9 and two frames. The maximum evaluates to
  the number nearest 0.9, which is \<open>8106479329266893 / 2^53\<close>; the time binding is left at
  \<^verbatim>\<open>0.2 + (0.9 - 0.2)\<close>, which is \<open>8106479329266892 / 2^53\<close>, the number below it (printed
  \<^verbatim>\<open>0.8999999999999999\<close>).
\<close>

theorem captureFrames_time_not_max_counterexample:
  "evaluate range_host (hide_chrome range_session) ''0.9'' = Resolved (Fin (8106479329266893 / 2 ^ 53))
   \<and> time_binding (fst (captureFrames range_host range_session (script_settings\<lparr>frames := 2\<rparr>) opts0))
       = Some (TimeTemplate (Fin (8106479329266892 / 2 ^ 53)))"
  unfolding run_range
  by (simp add: time_binding_def create_expr_def object_def time_slider_def
      evaluate_first range_host_def host0_def rnd_eval)

section \<open>Facts about \<^verbatim>\<open>createVideo\<close>\<close>

lemma Promise_all_loadImage:
  "Promise_all (map (loadImage env) fs)
     = (if \<forall>src \<in> set fs. decodes env src then Resolved (map Image fs) else Pending)"
proof (induction fs)
  case Nil
  then show ?case by simp
next
  case (Cons src fs)
  then show ?case by (simp add: loadImage_def)
qed

lemma draw_delays_append: "draw_delays (xs @ ys) = draw_delays xs @ draw_delays ys"
  by (induction xs rule: draw_delays.induct) simp_all

lemma stop_delays_append: "stop_delays (xs @ ys) = stop_delays xs @ stop_delays ys"
  by (induction xs rule: stop_delays.induct) simp_all

lemma draw_delays_Loaded: "draw_delays (map (Loaded \<circ> f) xs) = []"
  by (induction xs) simp_all

lemma stop_delays_Loaded: "stop_delays (map (Loaded \<circ> f) xs) = []"
  by (induction xs) simp_all

lemma draw_delays_draws:
  "draw_delays (map (\<lambda>i. SetTimeout (DrawImage (f i)) (g i)) js) = map g js"
  by (induction js) simp_all

lemma stop_delays_draws:
  "stop_delays (map (\<lambda>i. SetTimeout (DrawImage (f i)) (g i)) js) = []"
  by (induction js) simp_all

lemma createVideo_trace:
  assumes "recorder_supported env" and "\<forall>src \<in> set fs. decodes env src"
  shows "fst (createVideo env fs w h s)
           = map (Loaded \<circ> Image) fs @ [RecorderStart] @ schedule s (map Image fs)"
  using assms by (simp add: createVideo_def Promise_all_loadImage Let_def)

text \<open>
  Claim C7 (decode failure), amended. When the recorder is available and one of the images
  does not load, \<^verbatim>\<open>createVideo\<close> never starts the recorder, schedules no draw and no stop,
  and returns no video. It does not fail either: the promise it returns is never settled.
\<close>

theorem createVideo_decode_failure:
  assumes rec: "recorder_supported env" and src: "src \<in> set fs" and bad: "\<not> decodes env src"
  shows "snd (createVideo env fs w h s) = Pending
         \<and> fst (createVideo env fs w h s) = map (Loaded \<circ> Image) (filter (decodes env) fs)
         \<and> RecorderStart \<notin> set (fst (createVideo env fs w h s))
         \<and> draw_delays (fst (createVideo env fs w h s)) = []
         \<and> stop_delays (fst (createVideo env fs w h s)) = []"
proof -
  from src bad have "(\<forall>src \<in> set fs. decodes env src) = False" by blast
  then have "Promise_all (map (loadImage env) fs) = Pending"
    unfolding Promise_all_loadImage by simp
  then have run: "createVideo env fs w h s = (map (Loaded \<circ> Image) (filter (decodes env) fs), Pending)"
    using rec by (simp add: createVideo_def)
  show ?thesis
    unfolding run by (auto simp: draw_delays_Loaded stop_delays_Loaded)
qed

text \<open>
  Claim C7, as stated, on three frames of which the second does not load: the caller gets
  no rejection.
\<close>

theorem createVideo_decode_failure_counterexample:
  "\<not> is_rejected (snd (createVideo broken_frame [''f0'', ''broken'', ''f2''] (Fin 192) (Fin 108)
        (script_settings\<lparr>frames := 3\<rparr>)))"
  by (simp add: createVideo_def loadImage_def broken_frame_def host0_def)

text \<open>The theorem of C7 on the same three frames.\<close>

theorem createVideo_decode_failure_witness:
  "snd (createVideo broken_frame [''f0'', ''broken'', ''f2''] (Fin 192) (Fin 108)
        (script_settings\<lparr>frames := 3\<rparr>)) = Pending
   \<and> fst (createVideo broken_frame [''f0'', ''broken'', ''f2''] (Fin 192) (Fin 108)
        (script_settings\<lparr>frames := 3\<rparr>)) = [Loaded (Image ''f0''), Loaded (Image ''f2'')]"
proof -
  have rec: "recorder_supported broken_frame" by (simp add: broken_frame_def host0_def)
  have src: "''broken'' \<in> set [''f0'', ''broken'', ''f2'']" by simp
  have bad: "\<not> decodes broken_frame ''broken''" by (simp add: broken_frame_def)
  from createVideo_decode_failure [OF rec src bad, of "Fin 192" "Fin 108" "script_settings\<lparr>frames := 3\<rparr>"]
  show ?thesis by (simp add: broken_frame_def)
qed

subsection \<open>The schedule\<close>

lemma schedule_eq:
  "schedule s (map Image fs)
     = map (\<lambda>i. SetTimeout (DrawImage (Image (fs ! i))) (jmul (frame_delay s) (Fin (real i))))
         [0..<length fs]
       @ [SetTimeout RecorderStop (jmul (frame_delay s) (Fin (real (length fs))))]"
  by (simp add: schedule_def Let_def)

lemma jmul_mono:
  assumes "0 < D" and "i \<le> j"
  shows "jle (jmul (Fin D) (Fin (real i))) (jmul (Fin D) (Fin (real j)))"
proof -
  have "0 \<le> D * real i" using assms(1) by simp
  moreover have "D * real i \<le> D * real j" using assms by simp
  ultimately show ?thesis by (simp add: rnd_mono)
qed

lemma sorted_offsets:
  assumes "0 < D"
  shows "sorted_wrt jle (map (\<lambda>i. jmul (Fin D) (Fin (real i))) [0..<n])"
proof -
  have "sorted_wrt (\<lambda>i j. jle (jmul (Fin D) (Fin (real i))) (jmul (Fin D) (Fin (real j)))) [0..<n]"
  proof (rule sorted_wrt_mono_rel [where P = "(<)"])
    show "sorted_wrt (<) [0..<n]" by simp
  next
    fix i j :: nat
    assume "i < j"
    then have "i \<le> j" by simp
    with assms show "jle (jmul (Fin D) (Fin (real i))) (jmul (Fin D) (Fin (real j)))"
      by (rule jmul_mono)
  qed
  then show ?thesis by (simp add: sorted_wrt_map)
qed

lemma jmul_finite_below:
  assumes pos: "0 < D" and ij: "i \<le> j" and fin: "jmul (Fin D) (Fin (real j)) \<noteq> PInf"
  shows "\<exists>a. jmul (Fin D) (Fin (real i)) = Fin a"
proof -
  have "jle (jmul (Fin D) (Fin (real i))) (jmul (Fin D) (Fin (real j)))"
    using pos ij by (rule jmul_mono)
  then have "jmul (Fin D) (Fin (real i)) \<noteq> PInf"
    using fin by (cases "jmul (Fin D) (Fin (real j))") auto
  moreover have "0 \<le> D * real i" using pos by simp
  ultimately show ?thesis
    using rnd_cases [of "D * real i"] by (cases "D * real i = 0") (auto simp: inf_of_def)
qed

lemma jmul_strict:
  assumes D: "is_double (Fin D)" and pos: "0 < D" and ij: "i < j" and j: "j < 2 ^ 52"
    and fin: "jmul (Fin D) (Fin (real j)) \<noteq> PInf"
  shows "jlt (jmul (Fin D) (Fin (real i))) (jmul (Fin D) (Fin (real j)))"
proof -
  from jmul_finite_below [OF pos order_refl fin] obtain b where b: "rnd (D * real j) = Fin b"
    by auto
  from D have "rnd D = Fin D" by simp
  from offsets_strict [OF this pos ij j b] show ?thesis using b by auto
qed

lemma is_double_jdiv: "is_double (jdiv x y)"
  by (cases x; cases y) (simp_all add: is_double_rnd inf_of_def)

lemma sorted_strict:
  assumes D: "is_double (Fin D)" and pos: "0 < D" and n: "n < 2 ^ 52"
    and fin: "jmul (Fin D) (Fin (real n)) \<noteq> PInf"
  shows "sorted_wrt jlt (map (\<lambda>i. jmul (Fin D) (Fin (real i))) [0..<n])"
proof -
  have "sorted_wrt (\<lambda>i j. jlt (jmul (Fin D) (Fin (real i))) (jmul (Fin D) (Fin (real j)))) [0..<n]"
    unfolding sorted_wrt_iff_nth_less
  proof (intro allI impI)
    fix i j :: nat
    assume ij: "i < j" and jn: "j < length [0..<n]"
    then have j: "j < n" and i: "i < n" by simp_all
    from j n have j52: "j < 2 ^ 52" by linarith
    from jmul_finite_below [OF pos _ fin, of j] j
    have "jmul (Fin D) (Fin (real j)) \<noteq> PInf" by auto
    with D pos ij j52 have "jlt (jmul (Fin D) (Fin (real i))) (jmul (Fin D) (Fin (real j)))"
      by (rule jmul_strict)
    then show "jlt (jmul (Fin D) (Fin (real ([0..<n] ! i)))) (jmul (Fin D) (Fin (real ([0..<n] ! j))))"
      using i j by simp
  qed
  then show ?thesis by (simp add: sorted_wrt_map)
qed

lemma jmul_nat:
  assumes "k * i \<le> 2 ^ 53"
  shows "jmul (Fin (real k)) (Fin (real i)) = Fin (real (k * i))"
proof -
  have "jmul (Fin (real k)) (Fin (real i)) = rnd (real (k * i))" by simp
  also have "\<dots> = Fin (real (k * i))" using assms by (rule rnd_nat)
  finally show ?thesis .
qed

lemma exact_offsets:
  assumes "k * n \<le> 2 ^ 53"
  shows "map (\<lambda>i. jmul (Fin (real k)) (Fin (real i))) [0..<n] = map (\<lambda>i. Fin (real (k * i))) [0..<n]"
proof (rule map_cong [OF refl])
  fix i assume "i \<in> set [0..<n]"
  then have "i \<le> n" by simp
  then have "k * i \<le> k * n" by simp
  with assms have "k * i \<le> 2 ^ 53" by linarith
  then show "jmul (Fin (real k)) (Fin (real i)) = Fin (real (k * i))" by (rule jmul_nat)
qed

text \<open>
  Claim C6 (Video Assembler schedule), amended. With a recorder and images that all load,
  every image is loaded before the recorder starts. The delay \<open>frame_delay s\<close> is
  \<^verbatim>\<open>1000 * duration / frames\<close> milliseconds, computed in floating point; image \<open>i\<close> is
  scheduled to be drawn after \<^verbatim>\<open>delay * i\<close> and the stop after \<^verbatim>\<open>delay * images.length\<close>,
  each product rounded. For the frames that \<^verbatim>\<open>captureFrames\<close> returns, the number of
  images is \<^verbatim>\<open>settings.frames\<close>.
  \<^item> When the delay is finite and positive, the delays of the draws never decrease in
    input order and none exceeds the delay of the stop.
  \<^item> When moreover there are fewer than \<open>2^52\<close> images and the delay of the stop is
    not \<^verbatim>\<open>Infinity\<close>, the delays of the draws increase strictly in input order and each is
    strictly less than that of the stop.
  \<^item> When the delay is a positive whole number \<open>k\<close> of milliseconds and \<open>k\<close> times the
    number of images is at most \<open>2^53\<close>, the products are exact: draw \<open>i\<close> is at
    \<open>k * i\<close> and the stop at \<open>k\<close> times the number of images.
\<close>

theorem createVideo_schedule:
  assumes rec: "recorder_supported env"
    and dec: "\<forall>src \<in> set fs. decodes env src"
  shows "fst (createVideo env fs w h s)
           = map (Loaded \<circ> Image) fs @ [RecorderStart]
             @ map (\<lambda>i. SetTimeout (DrawImage (Image (fs ! i)))
                          (jmul (frame_delay s) (Fin (real i)))) [0..<length fs]
             @ [SetTimeout RecorderStop (jmul (frame_delay s) (Fin (real (length fs))))]
         \<and> draw_delays (fst (createVideo env fs w h s))
             = map (\<lambda>i. jmul (frame_delay s) (Fin (real i))) [0..<length fs]
         \<and> stop_delays (fst (createVideo env fs w h s))
             = [jmul (frame_delay s) (Fin (real (length fs)))]
         \<and> (captureFrames env' c s opts = (c', Resolved fs) \<longrightarrow>
               stop_delays (fst (createVideo env fs w h s))
                 = [jmul (frame_delay s) (Fin (real (frames s)))])
         \<and> (frame_delay s = Fin D \<and> 0 < D \<longrightarrow>
               sorted_wrt jle (draw_delays (fst (createVideo env fs w h s)))
               \<and> (\<forall>x \<in> set (draw_delays (fst (createVideo env fs w h s))).
                     jle x (jmul (frame_delay s) (Fin (real (length fs))))))
         \<and> (frame_delay s = Fin D \<and> 0 < D \<and> length fs < 2 ^ 52
            \<and> jmul (frame_delay s) (Fin (real (length fs))) \<noteq> PInf \<longrightarrow>
               sorted_wrt jlt (draw_delays (fst (createVideo env fs w h s)))
               \<and> (\<forall>x \<in> set (draw_delays (fst (createVideo env fs w h s))).
                     jlt x (jmul (frame_delay s) (Fin (real (length fs))))))
         \<and> (frame_delay s = Fin (real k) \<and> 0 < k \<and> k * length fs \<le> 2 ^ 53 \<longrightarrow>
               draw_delays (fst (createVideo env fs w h s))
                 = map (\<lambda>i. Fin (real (k * i))) [0..<length fs]
               \<and> stop_delays (fst (createVideo env fs w h s)) = [Fin (real (k * length fs))])"
proof -
  let ?tr = "fst (createVideo env fs w h s)"
  have trace: "?tr
           = map (Loaded \<circ> Image) fs @ [RecorderStart]
             @ map (\<lambda>i. SetTimeout (DrawImage (Image (fs ! i)))
                          (jmul (frame_delay s) (Fin (real i)))) [0..<length fs]
             @ [SetTimeout RecorderStop (jmul (frame_delay s) (Fin (real (length fs))))]"
    unfolding createVideo_trace [OF rec dec] schedule_eq by simp
  have draws: "draw_delays ?tr = map (\<lambda>i. jmul (frame_delay s) (Fin (real i))) [0..<length fs]"
    unfolding trace by (simp add: draw_delays_append draw_delays_Loaded draw_delays_draws)
  have stops: "stop_delays ?tr = [jmul (frame_delay s) (Fin (real (length fs)))]"
    unfolding trace by (simp add: stop_delays_append stop_delays_Loaded stop_delays_draws)
  have captured: "captureFrames env' c s opts = (c', Resolved fs) \<longrightarrow>
      stop_delays ?tr = [jmul (frame_delay s) (Fin (real (frames s)))]"
    unfolding stops using captureFrames_length [of env' c s opts c' fs] by simp
  have monotone: "frame_delay s = Fin D \<and> 0 < D \<longrightarrow>
      sorted_wrt jle (draw_delays ?tr)
      \<and> (\<forall>x \<in> set (draw_delays ?tr). jle x (jmul (frame_delay s) (Fin (real (length fs)))))"
  proof (intro impI, elim conjE)
    assume D: "frame_delay s = Fin D" "0 < D"
    have 1: "sorted_wrt jle (draw_delays ?tr)"
      unfolding draws D(1) using D(2) by (rule sorted_offsets)
    have 2: "\<forall>x \<in> set (draw_delays ?tr). jle x (jmul (frame_delay s) (Fin (real (length fs))))"
      unfolding draws D(1) using jmul_mono [OF D(2)] by auto
    from 1 2 show "sorted_wrt jle (draw_delays ?tr)
      \<and> (\<forall>x \<in> set (draw_delays ?tr). jle x (jmul (frame_delay s) (Fin (real (length fs)))))"
      by blast
  qed
  have strict: "frame_delay s = Fin D \<and> 0 < D \<and> length fs < 2 ^ 52
      \<and> jmul (frame_delay s) (Fin (real (length fs))) \<noteq> PInf \<longrightarrow>
      sorted_wrt jlt (draw_delays ?tr)
      \<and> (\<forall>x \<in> set (draw_delays ?tr). jlt x (jmul (frame_delay s) (Fin (real (length fs)))))"
  proof (intro impI, elim conjE)
    assume D: "frame_delay s = Fin D" "0 < D" and n: "length fs < 2 ^ 52"
      and fin: "jmul (frame_delay s) (Fin (real (length fs))) \<noteq> PInf"
    have dbl: "is_double (Fin D)"
      using is_double_jdiv [of "jmul (Fin 1000) (duration s)" "Fin (real (frames s))"] D(1)
      by (simp add: frame_delay_def)
    have fin': "jmul (Fin D) (Fin (real (length fs))) \<noteq> PInf" using fin D(1) by simp
    have 1: "sorted_wrt jlt (draw_delays ?tr)"
      unfolding draws D(1) using dbl D(2) n fin' by (rule sorted_strict)
    have 2: "\<forall>x \<in> set (draw_delays ?tr). jlt x (jmul (frame_delay s) (Fin (real (length fs))))"
      unfolding draws D(1) using jmul_strict [OF dbl D(2) _ n fin'] by auto
    from 1 2 show "sorted_wrt jlt (draw_delays ?tr)
      \<and> (\<forall>x \<in> set (draw_delays ?tr). jlt x (jmul (frame_delay s) (Fin (real (length fs)))))"
      by blast
  qed
  have exact: "frame_delay s = Fin (real k) \<and> 0 < k \<and> k * length fs \<le> 2 ^ 53 \<longrightarrow>
      draw_delays ?tr = map (\<lambda>i. Fin (real (k * i))) [0..<length fs]
      \<and> stop_delays ?tr = [Fin (real (k * length fs))]"
  proof (intro impI, elim conjE)
    assume k: "frame_delay s = Fin (real k)" "0 < k" "k * length fs \<le> 2 ^ 53"
    have 1: "draw_delays ?tr = map (\<lambda>i. Fin (real (k * i))) [0..<length fs]"
      unfolding draws k(1) using k(3) by (rule exact_offsets)
    have 2: "stop_delays ?tr = [Fin (real (k * length fs))]"
      unfolding stops k(1) using jmul_nat [OF k(3)] by simp
    from 1 2 show "draw_delays ?tr = map (\<lambda>i. Fin (real (k * i))) [0..<length fs]
      \<and> stop_delays ?tr = [Fin (real (k * length fs))]"
      by blast
  qed
  from trace draws stops captured monotone strict exact show ?thesis by blast
qed

text \<open>Two frames over five seconds: the delay is 2500 milliseconds.\<close>

lemma frame_delay_two: "frame_delay (script_settings\<lparr>frames := 2\<rparr>) = Fin (real (2500::nat))"
  by (simp add: frame_delay_def script_settings_def rnd_eval)

text \<open>
  The theorem of C6 on the two frames that \<^verbatim>\<open>captureFrames\<close> returns on the example
  session, over five seconds.
\<close>

theorem createVideo_schedule_witness:
  "draw_delays (fst (createVideo host0 [''data:image/png'', ''data:image/png''] (Fin 192) (Fin 108)
       (script_settings\<lparr>frames := 2\<rparr>))) = [Fin 0, Fin 2500]
   \<and> sorted_wrt jlt (draw_delays (fst (createVideo host0 [''data:image/png'', ''data:image/png''] (Fin 192) (Fin 108)
       (script_settings\<lparr>frames := 2\<rparr>))))
   \<and> stop_delays (fst (createVideo host0 [''data:image/png'', ''data:image/png''] (Fin 192) (Fin 108)
       (script_settings\<lparr>frames := 2\<rparr>))) = [Fin 5000]
   \<and> frame_delay (script_settings\<lparr>frames := 2\<rparr>) = Fin 2500"
proof -
  have rec: "recorder_supported host0" by (simp add: host0_def)
  have dec: "\<forall>src \<in> set [''data:image/png'', ''data:image/png'']. decodes host0 src"
    by (simp add: host0_def)
  have pos: "0 < real (2500::nat)" "0 < (2500::nat)" by simp_all
  have small: "2500 * length [''data:image/png'', ''data:image/png''] \<le> (2::nat) ^ 53"
    "length [''data:image/png'', ''data:image/png''] < (2::nat) ^ 52" by simp_all
  have fin: "jmul (frame_delay (script_settings\<lparr>frames := 2\<rparr>))
      (Fin (real (length [''data:image/png'', ''data:image/png'']))) \<noteq> PInf"
    unfolding frame_delay_two by (simp add: rnd_eval)
  have d: "frame_delay (script_settings\<lparr>frames := 2\<rparr>) = Fin 2500"
    using frame_delay_two by simp
  from createVideo_schedule [OF rec dec, where env' = host0 and c = folder_and_slider
      and s = "script_settings\<lparr>frames := 2\<rparr>" and opts = opts0 and D = "real (2500::nat)"
      and k = 2500 and w = "Fin 192" and h = "Fin 108"]
    run_two_frames frame_delay_two pos small fin
  have "sorted_wrt jlt (draw_delays (fst (createVideo host0 [''data:image/png'', ''data:image/png''] (Fin 192) (Fin 108)
       (script_settings\<lparr>frames := 2\<rparr>))))
     \<and> draw_delays (fst (createVideo host0 [''data:image/png'', ''data:image/png''] (Fin 192) (Fin 108)
       (script_settings\<lparr>frames := 2\<rparr>))) = map (\<lambda>i. Fin (real (2500 * i))) [0..<length [''data:image/png'', ''data:image/png'']]
     \<and> stop_delays (fst (createVideo host0 [''data:image/png'', ''data:image/png''] (Fin 192) (Fin 108)
       (script_settings\<lparr>frames := 2\<rparr>))) = [Fin (real (2500 * length [''data:image/png'', ''data:image/png'']))]"
    by blast
  then show ?thesis using d by (simp add: upt_2)
qed

text \<open>
  Three frames over five seconds: the delay is the number nearest \<open>5000 / 3\<close>, and the
  product for the stop rounds to 5000.
\<close>

lemma createVideo_three:
  "fst (createVideo host0 [''f0'', ''f1'', ''f2''] (Fin 192) (Fin 108) (script_settings\<lparr>frames := 3\<rparr>))
     = [Loaded (Image ''f0''), Loaded (Image ''f1''), Loaded (Image ''f2''), RecorderStart,
        SetTimeout (DrawImage (Image ''f0'')) (Fin 0),
        SetTimeout (DrawImage (Image ''f1'')) (Fin (7330077518506667 / 2 ^ 42)),
        SetTimeout (DrawImage (Image ''f2'')) (Fin (7330077518506667 / 2 ^ 41)),
        SetTimeout RecorderStop (Fin 5000)]"
  by (simp add: createVideo_def loadImage_def schedule_def frame_delay_def host0_def
      script_settings_def upt_rec rnd_eval)

lemma long_duration: "is_double (duration long_settings)"
proof -
  have "rnd (2 ^ 1020) = Fin (2 ^ 1020)"
    by (rule rnd_exact [where m = 1 and q = 1020]) (simp_all add: pow2_def)
  then show ?thesis by (simp add: long_settings_def)
qed

lemma long_delay: "frame_delay long_settings = PInf"
proof -
  have "pow2 1024 \<le> 1000 * 2 ^ 1020" by (simp add: pow2_def)
  then have "rnd (1000 * 2 ^ 1020) = PInf" by (rule rnd_overflow)
  then show ?thesis by (simp add: frame_delay_def long_settings_def inf_of_def)
qed

text \<open>
  Claim C6, as stated, on three frames and a duration of \<open>2^1020\<close> seconds, a positive
  finite number of the language. \<^verbatim>\<open>1000 * duration\<close> overflows to \<^verbatim>\<open>Infinity\<close>, and so does
  the delay; the first draw is scheduled after \<^verbatim>\<open>Infinity * 0\<close>, which is \<^verbatim>\<open>NaN\<close>, the
  other two and the stop after \<^verbatim>\<open>Infinity\<close>. The delays of the draws do not increase
  strictly, and the stop is not strictly after the last draw.
\<close>

theorem createVideo_offsets_counterexample:
  "is_double (duration long_settings) \<and> jlt (Fin 0) (duration long_settings)
   \<and> draw_delays (fst (createVideo host0 [''f0'', ''f1'', ''f2''] (Fin 192) (Fin 108) long_settings))
       = [NaN, PInf, PInf]
   \<and> stop_delays (fst (createVideo host0 [''f0'', ''f1'', ''f2''] (Fin 192) (Fin 108) long_settings))
       = [PInf]
   \<and> \<not> sorted_wrt jlt (draw_delays (fst (createVideo host0 [''f0'', ''f1'', ''f2''] (Fin 192) (Fin 108)
          long_settings)))
   \<and> \<not> jlt PInf PInf"
proof -
  have tr: "fst (createVideo host0 [''f0'', ''f1'', ''f2''] (Fin 192) (Fin 108) long_settings)
     = [Loaded (Image ''f0''), Loaded (Image ''f1''), Loaded (Image ''f2''), RecorderStart,
        SetTimeout (DrawImage (Image ''f0'')) NaN,
        SetTimeout (DrawImage (Image ''f1'')) PInf,
        SetTimeout (DrawImage (Image ''f2'')) PInf,
        SetTimeout RecorderStop PInf]"
    by (simp add: createVideo_def loadImage_def schedule_def long_delay host0_def upt_rec inf_of_def)
  have pos: "jlt (Fin 0) (duration long_settings)" by (simp add: long_settings_def)
  from long_duration pos show ?thesis unfolding tr by simp
qed

section \<open>Facts about \<^verbatim>\<open>render\<close>\<close>










text \<open>
  \<^verbatim>\<open>Math.floor(0.29 * 100)\<close> is 28 and \<^verbatim>\<open>Math.floor(0.7 * 10)\<close> is 7; the number nearest
  0.7 is below seven tenths, and the product rounds up to 7.
\<close>

lemma floor_of_rounded_product:
  "Math_floor (jmul (lit 0.29) (Fin 100)) = Fin 28"
  "Math_floor (jmul (lit 0.7) (Fin 10)) = Fin 7"
  "lit 0.7 = Fin (3152519739159347 / 2 ^ 52)"
  by (simp_all add: rnd_eval)




section \<open>Facts about \<^verbatim>\<open>evaluate\<close>\<close>

text \<open>
  Claim C8 (Value Observer Bridge), amended. For every latex, constant or not, the helper
  expression is created for the latex followed by \<^verbatim>\<open>+0\<close>. The promise resolves with the
  value of the first report and later reports do not change it; the caller that awaits it
  gets that value, or waits for ever when there is no report. The observer is never
  removed: it stays registered and runs again at every later report.
\<close>

theorem evaluate_bridge:
  "helper_latex (evaluate_call l) = l @ ''+0''
   \<and> resolved_with (foldl notify (evaluate_call l) (v # vs)) = Some v
   \<and> observing (foldl notify (evaluate_call l) ns)
   \<and> calls (foldl notify (evaluate_call l) ns) = length ns
   \<and> evaluate env c l
       = (case notifications env c (l @ ''+0'') of [] \<Rightarrow> Pending | v # vs \<Rightarrow> Resolved v)"
  unfolding foldl_notify evaluate_first by (simp add: evaluate_call_def)

text \<open>
  Claim C8, as stated: after the first report the observer is still registered, and a
  second report runs it a second time (without effect on the promise).
\<close>

theorem evaluate_subscription_counterexample:
  "observing (notify (evaluate_call ''0'') (Fin 0))
   \<and> calls (foldl notify (evaluate_call ''0'') [Fin 0, Fin 1]) = 2
   \<and> resolved_with (foldl notify (evaluate_call ''0'') [Fin 0, Fin 1]) = Some (Fin 0)"
  by (simp add: notify_def evaluate_call_def res_def)

text \<open>The theorem of C8 on the upper bound of the default slider.\<close>

theorem evaluate_bridge_witness:
  "helper_latex (evaluate_call ''1'') = ''1+0''
   \<and> evaluate host0 folder_and_slider ''1'' = Resolved (Fin 1)"
  using evaluate_bridge [of "''1''" _ _ _ host0 folder_and_slider]
  by (simp add: host0_def)

section \<open>Facts about \<^verbatim>\<open>setup\<close>\<close>

lemma update_expr_idem: "update_expr p (update_expr p e) = update_expr p e"
  by (simp add: update_expr_def split: option.splits)

lemma update_create: "update_expr p (create_expr p) = create_expr p"
  by (simp add: update_expr_def create_expr_def split: option.splits)

lemma applied_same: "applied p (set_in_list p es)"
  by (simp add: applied_def find_id_set_same update_expr_idem update_create split: option.splits)

lemma applied_other: "set_id q \<noteq> set_id p \<Longrightarrow> applied p (set_in_list q es) = applied p es"
  by (simp add: applied_def find_id_set_other)

lemma set_in_list_noop: "applied p es \<Longrightarrow> set_in_list p es = es"
  by (induction es) (auto simp: applied_def)

lemma id_place [simp]: "id' (place_in_folder e) = id' e"
  by (simp add: place_in_folder_def)

lemma place_idem [simp]: "place_in_folder (place_in_folder e) = place_in_folder e"
  by (simp add: place_in_folder_def)

lemma update_place: "update_expr p (place_in_folder e) = place_in_folder (update_expr p e)"
  by (simp add: place_in_folder_def update_expr_def cong: option.case_cong)

lemma find_id_place:
  "find_id i (map place_in_folder es) = map_option place_in_folder (find_id i es)"
  by (induction es) auto

lemma applied_place: "applied p es \<Longrightarrow> applied p (map place_in_folder es)"
  by (auto simp: applied_def find_id_place update_place split: option.splits)

lemma setExpressions_Nil [simp]: "setExpressions [] c = c"
  by (simp add: setExpressions_def)

lemma setExpressions_Cons [simp]:
  "setExpressions (p # ps) c = setExpressions ps (setExpression p c)"
  by (simp add: setExpressions_def)

lemma settings_setExpressions [simp]: "settings (setExpressions ps c) = settings c"
  by (induction ps arbitrary: c) simp_all

lemma setup_session_eq:
  "setup_session c =
     c\<lparr>expressions := map place_in_folder
        (expressions
          ((if ''bounds time'' \<notin> ids c then setExpression time_slider else (\<lambda>c'. c'))
            ((if ''bounds x1'' \<notin> ids c then setExpressions edges else (\<lambda>c'. c'))
              (setExpressions folder_and_controls c))))\<rparr>"
  by (simp add: setup_session_def getExpressions_def getState_def setState_def Let_def ids_def)

lemma ids_setExpression: "ids (setExpression p c) = insert (set_id p) (ids c)"
  using ids_set_in_list [of p "expressions c"] by (simp add: ids_def)

lemma ids_setExpressions: "ids (setExpressions ps c) = ids c \<union> set (map set_id ps)"
  by (induction ps arbitrary: c) (auto simp: ids_setExpression)

lemma ids_setup_session:
  "ids (setup_session c) =
     ids c \<union> set (map set_id folder_and_controls)
     \<union> (if ''bounds x1'' \<in> ids c then {} else set (map set_id edges))
     \<union> {''bounds time''}"
proof -
  have "ids (setup_session c) =
     ids ((if ''bounds time'' \<notin> ids c then setExpression time_slider else (\<lambda>c'. c'))
            ((if ''bounds x1'' \<notin> ids c then setExpressions edges else (\<lambda>c'. c'))
              (setExpressions folder_and_controls c)))"
    unfolding setup_session_eq by (simp add: ids_def)
  also have "\<dots> = ids c \<union> set (map set_id folder_and_controls)
     \<union> (if ''bounds x1'' \<in> ids c then {} else set (map set_id edges))
     \<union> {''bounds time''}"
    by (auto simp: ids_setExpression ids_setExpressions time_slider_def)
  finally show ?thesis .
qed

lemma edge_ids: "set (map set_id edges) = {''bounds x1'', ''bounds x2'', ''bounds y1'', ''bounds y2''}"
  by (auto simp: edges_def)

lemma control_ids:
  "set (map set_id folder_and_controls) =
     {''bounds'', ''bounds x1y1'', ''bounds x2y2'', ''bounds rect'', ''bounds animate'',
      ''bounds start action''}"
  by (auto simp: folder_and_controls_def)

lemma expressions_setExpressions_noop:
  "\<forall>p \<in> set ps. applied p (expressions c) \<Longrightarrow> setExpressions ps c = c"
proof (induction ps)
  case Nil
  then show ?case by simp
next
  case (Cons p ps)
  then have "setExpression p c = c"
    by (simp add: setExpression_def set_in_list_noop)
  with Cons show ?case by simp
qed

lemma applied_setExpressions_other:
  "set_id p \<notin> set (map set_id qs) \<Longrightarrow>
     applied p (expressions (setExpressions qs c)) = applied p (expressions c)"
proof (induction qs arbitrary: c)
  case Nil
  then show ?case by simp
next
  case (Cons q qs)
  then show ?case by (simp add: applied_other [OF not_sym])
qed

lemma controls_applied:
  "\<forall>p \<in> set folder_and_controls. applied p (expressions (setExpressions folder_and_controls c))"
  by (simp add: folder_and_controls_def applied_same applied_other)

lemma controls_applied_setup:
  assumes "p \<in> set folder_and_controls"
  shows "applied p (expressions (setup_session c))"
proof -
  have 1: "applied p (expressions (setExpressions folder_and_controls c))"
    using controls_applied assms by blast
  have ne: "set_id p \<notin> set (map set_id edges)" "set_id time_slider \<noteq> set_id p"
    using assms unfolding edge_ids by (auto simp: folder_and_controls_def time_slider_def)
  have 2: "applied p (expressions ((if ''bounds x1'' \<notin> ids c then setExpressions edges else (\<lambda>c'. c'))
              (setExpressions folder_and_controls c)))"
    using 1 ne(1) by (simp add: applied_setExpressions_other)
  have 3: "applied p (expressions ((if ''bounds time'' \<notin> ids c then setExpression time_slider else (\<lambda>c'. c'))
            ((if ''bounds x1'' \<notin> ids c then setExpressions edges else (\<lambda>c'. c'))
              (setExpressions folder_and_controls c))))"
    using 2 ne(2) by (simp add: applied_other)
  show ?thesis
    unfolding setup_session_eq using applied_place [OF 3] by simp
qed

lemma fst_setup: "fst (setup' env c) = setup_session c"
  by (simp add: setup'_def Let_def)

lemma setup_session_idem: "setup_session (setup_session c) = setup_session c"
proof -
  let ?S = "setup_session c"
  have x1: "''bounds x1'' \<in> ids ?S" and t: "''bounds time'' \<in> ids ?S"
    unfolding ids_setup_session edge_ids by auto
  have noop: "setExpressions folder_and_controls ?S = ?S"
    by (rule expressions_setExpressions_noop) (simp add: controls_applied_setup)
  have placed: "map place_in_folder (expressions ?S) = expressions ?S"
    unfolding setup_session_eq [of c] by simp
  have "setup_session ?S = ?S\<lparr>expressions := map place_in_folder (expressions ?S)\<rparr>"
    unfolding setup_session_eq [of ?S] using x1 t noop by simp
  then show ?thesis using placed by simp
qed

lemma distinct_setExpressions:
  "distinct (map id' (expressions c)) \<Longrightarrow> distinct (map id' (expressions (setExpressions ps c)))"
  by (induction ps arbitrary: c) (simp_all add: distinct_set_in_list)

lemma id_comp_place [simp]: "id' \<circ> place_in_folder = id'"
  by (rule ext) simp

lemma edge_ids_image:
  "set_id ` set edges = {''bounds x1'', ''bounds x2'', ''bounds y1'', ''bounds y2''}"
  using edge_ids by simp

lemma control_ids_image:
  "set_id ` set folder_and_controls =
     {''bounds'', ''bounds x1y1'', ''bounds x2y2'', ''bounds rect'', ''bounds animate'',
      ''bounds start action''}"
  using control_ids by simp

lemma setup_session_distinct:
  "distinct (map id' (expressions c)) \<Longrightarrow> distinct (map id' (expressions (setup_session c)))"
  unfolding setup_session_eq
  by (simp add: distinct_setExpressions distinct_set_in_list)

lemma find_id_setExpressions_other:
  "i \<notin> set (map set_id ps) \<Longrightarrow>
     find_id i (expressions (setExpressions ps c)) = find_id i (expressions c)"
proof (induction ps arbitrary: c)
  case Nil
  then show ?case by simp
next
  case (Cons p ps)
  then show ?case by (simp add: find_id_set_other [OF not_sym])
qed

lemma setup_session_keeps:
  assumes "i \<notin> set (map set_id folder_and_controls)"
    and "i \<in> set (map set_id edges) \<longrightarrow> ''bounds x1'' \<in> ids c"
    and "i = ''bounds time'' \<longrightarrow> ''bounds time'' \<in> ids c"
  shows "find_id i (expressions (setup_session c))
           = map_option place_in_folder (find_id i (expressions c))"
proof -
  have 1: "find_id i (expressions (setExpressions folder_and_controls c)) = find_id i (expressions c)"
    using assms(1) by (rule find_id_setExpressions_other)
  have 2: "find_id i (expressions ((if ''bounds x1'' \<notin> ids c then setExpressions edges else (\<lambda>c'. c'))
              (setExpressions folder_and_controls c))) = find_id i (expressions c)"
    using 1 assms(2) by (auto simp: find_id_setExpressions_other)
  have 3: "find_id i (expressions ((if ''bounds time'' \<notin> ids c then setExpression time_slider else (\<lambda>c'. c'))
            ((if ''bounds x1'' \<notin> ids c then setExpressions edges else (\<lambda>c'. c'))
              (setExpressions folder_and_controls c)))) = find_id i (expressions c)"
    using 2 assms(3) by (auto simp: find_id_set_other time_slider_def)
  show ?thesis
    unfolding setup_session_eq using 3 by (simp add: find_id_place)
qed

lemma latex_place [simp]: "latex (place_in_folder e) = latex e"
  by (simp add: place_in_folder_def)

lemma setup_session_animate:
  "map_option latex (find_id ''bounds animate'' (expressions (setup_session c)))
     = Some (Some (Literal ''a_{nimate}=0''))"
proof -
  let ?p = "(object ''bounds animate'')\<lparr>set_secret := Some True, set_latex := Some (Literal ''a_{nimate}=0'')\<rparr>"
  have "?p \<in> set folder_and_controls"
    by (simp add: folder_and_controls_def)
  then have "applied ?p (expressions (setup_session c))"
    by (rule controls_applied_setup)
  then obtain e where e: "find_id ''bounds animate'' (expressions (setup_session c)) = Some e"
    and u: "update_expr ?p e = e"
    by (auto simp: applied_def split: option.splits)
  have "latex (update_expr ?p e) = Some (Literal ''a_{nimate}=0'')"
    by (simp add: update_expr_def)
  with e u show ?thesis by simp
qed

text \<open>
  Claim C4 (Session Bootstrapper idempotence), amended. Running \<^verbatim>\<open>setup\<close> twice leaves the
  session that running it once leaves. A run creates no second expression with an id
  already there. An existing \<^verbatim>\<open>bounds time\<close>, and the existing edges when \<^verbatim>\<open>bounds x1\<close>
  exists, keep every property but their folder. The animate binding does not: every run
  sets its latex to \<^verbatim>\<open>a_{nimate}=0\<close>.
\<close>

theorem setup_session_idempotent:
  "setup_session (setup_session c) = setup_session c
   \<and> (distinct (map id' (expressions c)) \<longrightarrow>
        distinct (map id' (expressions (setup_session c))))
   \<and> (''bounds time'' \<in> ids c \<longrightarrow>
        find_id ''bounds time'' (expressions (setup_session c))
          = map_option place_in_folder (find_id ''bounds time'' (expressions c)))
   \<and> (''bounds x1'' \<in> ids c \<longrightarrow>
        (\<forall>i \<in> {''bounds x1'', ''bounds x2'', ''bounds y1'', ''bounds y2''}.
           find_id i (expressions (setup_session c))
             = map_option place_in_folder (find_id i (expressions c))))
   \<and> map_option latex (find_id ''bounds animate'' (expressions (setup_session c)))
        = Some (Some (Literal ''a_{nimate}=0''))"
proof -
  have t: "''bounds time'' \<in> ids c \<longrightarrow>
        find_id ''bounds time'' (expressions (setup_session c))
          = map_option place_in_folder (find_id ''bounds time'' (expressions c))"
    by (intro impI setup_session_keeps) (simp_all add: control_ids_image edge_ids_image)
  have e: "''bounds x1'' \<in> ids c \<longrightarrow>
        (\<forall>i \<in> {''bounds x1'', ''bounds x2'', ''bounds y1'', ''bounds y2''}.
           find_id i (expressions (setup_session c))
             = map_option place_in_folder (find_id i (expressions c)))"
  proof (intro impI ballI)
    fix i
    assume "''bounds x1'' \<in> ids c"
      and "i \<in> {''bounds x1'', ''bounds x2'', ''bounds y1'', ''bounds y2''}"
    then show "find_id i (expressions (setup_session c))
             = map_option place_in_folder (find_id i (expressions c))"
      by (intro setup_session_keeps) (auto simp: control_ids_image edge_ids_image)
  qed
  from setup_session_idem setup_session_distinct t e setup_session_animate
  show ?thesis by blast
qed

lemmas setup_simps =
  setup_session_def getExpressions_def getState_def setState_def setExpression_def
  folder_and_controls_def edges_def time_slider_def object_def create_expr_def update_expr_def
  place_in_folder_def startsWith_def Let_def

lemma bootstrapped_ids:
  "map id' (expressions bootstrapped) =
     [''bounds'', ''bounds x1y1'', ''bounds x2y2'', ''bounds rect'', ''bounds animate'',
      ''bounds start action'', ''bounds x1'', ''bounds x2'', ''bounds y1'', ''bounds y2'',
      ''bounds time'']"
  by (simp add: bootstrapped_def blank_def setup_simps)

lemma bootstrapped_time:
  "find_id ''bounds time'' (expressions bootstrapped)
     = Some ((create_expr time_slider)\<lparr>folderId := Some ''bounds''\<rparr>)"
  by (simp add: bootstrapped_def blank_def setup_simps)

lemma bootstrapped_animate:
  "find_id ''bounds animate'' (expressions bootstrapped)
     = Some ((create_expr ((object ''bounds animate'')
          \<lparr>set_secret := Some True, set_latex := Some (Literal ''a_{nimate}=0'')\<rparr>))
        \<lparr>folderId := Some ''bounds''\<rparr>)"
  by (simp add: bootstrapped_def blank_def setup_simps)

lemma edges_applied:
  "\<forall>p \<in> set edges. applied p (expressions (setExpressions edges c))"
  by (simp add: edges_def applied_same applied_other)

lemma edges_applied_setup:
  assumes "''bounds x1'' \<notin> ids c" and "p \<in> set edges"
  shows "applied p (expressions (setup_session c))"
proof -
  have 1: "applied p (expressions (setExpressions edges (setExpressions folder_and_controls c)))"
    using edges_applied assms(2) by blast
  have ne: "set_id time_slider \<noteq> set_id p"
    using assms(2) by (auto simp: edges_def time_slider_def)
  have 2: "applied p (expressions ((if ''bounds time'' \<notin> ids c then setExpression time_slider else (\<lambda>c'. c'))
            (setExpressions edges (setExpressions folder_and_controls c))))"
    using 1 ne by (simp add: applied_other)
  show ?thesis
    unfolding setup_session_eq using applied_place [OF 2] assms(1) by simp
qed

lemma applied_latex:
  assumes "applied p es" and "set_latex p = Some l"
  shows "map_option latex (find_id (set_id p) es) = Some (Some l)"
proof -
  from assms(1) obtain e where e: "find_id (set_id p) es = Some e" and u: "update_expr p e = e"
    by (auto simp: applied_def split: option.splits)
  have "latex (update_expr p e) = Some l"
    using assms(2) by (simp add: update_expr_def)
  with e u show ?thesis by simp
qed

lemma applied_secret:
  assumes "applied p es" and "set_secret p = Some b"
  shows "map_option secret (find_id (set_id p) es) = Some b"
proof -
  from assms(1) obtain e where e: "find_id (set_id p) es = Some e" and u: "update_expr p e = e"
    by (auto simp: applied_def split: option.splits)
  have "secret (update_expr p e) = b"
    using assms(2) by (simp add: update_expr_def)
  with e u show ?thesis by simp
qed

lemma edge_created:
  assumes absent: "''bounds x1'' \<notin> ids c"
    and p: "(object i)\<lparr>set_secret := Some True, set_latex := Some (Literal l)\<rparr> \<in> set edges"
  shows "map_option (\<lambda>e. (latex e, secret e)) (find_id i (expressions (setup_session c)))
           = Some (Some (Literal l), True)"
proof -
  let ?p = "(object i)\<lparr>set_secret := Some True, set_latex := Some (Literal l)\<rparr>"
  have a: "applied ?p (expressions (setup_session c))"
    using absent p by (rule edges_applied_setup)
  have i: "set_id ?p = i" by (simp add: object_def)
  have "map_option latex (find_id i (expressions (setup_session c))) = Some (Some (Literal l))"
    using applied_latex [OF a, of "Literal l"] by (simp add: i)
  moreover have "map_option secret (find_id i (expressions (setup_session c))) = Some True"
    using applied_secret [OF a, of True] by (simp add: i)
  ultimately show ?thesis
    by (cases "find_id i (expressions (setup_session c))") simp_all
qed

text \<open>
  Claim C10 (the edges depend on \<^verbatim>\<open>bounds x1\<close> alone). When the session has no expression
  with id \<^verbatim>\<open>bounds x1\<close>, \<^verbatim>\<open>setup\<close> sets all four edges: afterwards \<^verbatim>\<open>bounds x1\<close>,
  \<^verbatim>\<open>bounds x2\<close>, \<^verbatim>\<open>bounds y1\<close> and \<^verbatim>\<open>bounds y2\<close> are secret and have the latex
  \<^verbatim>\<open>B_{x1}=-9.6\<close>, \<^verbatim>\<open>B_{x2}= 9.6\<close>, \<^verbatim>\<open>B_{y1}=-5.4\<close> and \<^verbatim>\<open>B_{y2}= 5.4\<close>. When it has
  one, \<^verbatim>\<open>setup\<close> sets none of the four: each is afterwards what it was before, but for
  the folder it is placed in, and one that was absent is absent, so a missing
  \<^verbatim>\<open>bounds x2\<close>, \<^verbatim>\<open>bounds y1\<close> or \<^verbatim>\<open>bounds y2\<close> is not created.
\<close>

theorem setup_edges_only_by_x1:
  "(''bounds x1'' \<notin> ids c \<longrightarrow>
      map_option (\<lambda>e. (latex e, secret e)) (find_id ''bounds x1'' (expressions (setup_session c)))
        = Some (Some (Literal ''B_{x1}=-9.6''), True)
      \<and> map_option (\<lambda>e. (latex e, secret e)) (find_id ''bounds x2'' (expressions (setup_session c)))
        = Some (Some (Literal ''B_{x2}= 9.6''), True)
      \<and> map_option (\<lambda>e. (latex e, secret e)) (find_id ''bounds y1'' (expressions (setup_session c)))
        = Some (Some (Literal ''B_{y1}=-5.4''), True)
      \<and> map_option (\<lambda>e. (latex e, secret e)) (find_id ''bounds y2'' (expressions (setup_session c)))
        = Some (Some (Literal ''B_{y2}= 5.4''), True))
   \<and> (''bounds x1'' \<in> ids c \<longrightarrow>
        (\<forall>i \<in> {''bounds x1'', ''bounds x2'', ''bounds y1'', ''bounds y2''}.
           find_id i (expressions (setup_session c))
             = map_option place_in_folder (find_id i (expressions c)))
        \<and> (\<forall>i \<in> {''bounds x2'', ''bounds y1'', ''bounds y2''}.
             i \<in> ids (setup_session c) \<longleftrightarrow> i \<in> ids c))"
proof -
  have created: "''bounds x1'' \<notin> ids c \<longrightarrow>
      map_option (\<lambda>e. (latex e, secret e)) (find_id ''bounds x1'' (expressions (setup_session c)))
        = Some (Some (Literal ''B_{x1}=-9.6''), True)
      \<and> map_option (\<lambda>e. (latex e, secret e)) (find_id ''bounds x2'' (expressions (setup_session c)))
        = Some (Some (Literal ''B_{x2}= 9.6''), True)
      \<and> map_option (\<lambda>e. (latex e, secret e)) (find_id ''bounds y1'' (expressions (setup_session c)))
        = Some (Some (Literal ''B_{y1}=-5.4''), True)
      \<and> map_option (\<lambda>e. (latex e, secret e)) (find_id ''bounds y2'' (expressions (setup_session c)))
        = Some (Some (Literal ''B_{y2}= 5.4''), True)"
  proof
    assume absent: "''bounds x1'' \<notin> ids c"
    have 1: "map_option (\<lambda>e. (latex e, secret e)) (find_id ''bounds x1'' (expressions (setup_session c)))
        = Some (Some (Literal ''B_{x1}=-9.6''), True)"
      using absent by (rule edge_created) (simp add: edges_def)
    have 2: "map_option (\<lambda>e. (latex e, secret e)) (find_id ''bounds x2'' (expressions (setup_session c)))
        = Some (Some (Literal ''B_{x2}= 9.6''), True)"
      using absent by (rule edge_created) (simp add: edges_def)
    have 3: "map_option (\<lambda>e. (latex e, secret e)) (find_id ''bounds y1'' (expressions (setup_session c)))
        = Some (Some (Literal ''B_{y1}=-5.4''), True)"
      using absent by (rule edge_created) (simp add: edges_def)
    have 4: "map_option (\<lambda>e. (latex e, secret e)) (find_id ''bounds y2'' (expressions (setup_session c)))
        = Some (Some (Literal ''B_{y2}= 5.4''), True)"
      using absent by (rule edge_created) (simp add: edges_def)
    from 1 2 3 4 show "map_option (\<lambda>e. (latex e, secret e)) (find_id ''bounds x1'' (expressions (setup_session c)))
        = Some (Some (Literal ''B_{x1}=-9.6''), True)
      \<and> map_option (\<lambda>e. (latex e, secret e)) (find_id ''bounds x2'' (expressions (setup_session c)))
        = Some (Some (Literal ''B_{x2}= 9.6''), True)
      \<and> map_option (\<lambda>e. (latex e, secret e)) (find_id ''bounds y1'' (expressions (setup_session c)))
        = Some (Some (Literal ''B_{y1}=-5.4''), True)
      \<and> map_option (\<lambda>e. (latex e, secret e)) (find_id ''bounds y2'' (expressions (setup_session c)))
        = Some (Some (Literal ''B_{y2}= 5.4''), True)"
      by blast
  qed
  have untouched: "''bounds x1'' \<in> ids c \<longrightarrow>
        (\<forall>i \<in> {''bounds x1'', ''bounds x2'', ''bounds y1'', ''bounds y2''}.
           find_id i (expressions (setup_session c))
             = map_option place_in_folder (find_id i (expressions c)))"
  proof (intro impI ballI)
    fix i
    assume "''bounds x1'' \<in> ids c"
      and "i \<in> {''bounds x1'', ''bounds x2'', ''bounds y1'', ''bounds y2''}"
    then show "find_id i (expressions (setup_session c))
             = map_option place_in_folder (find_id i (expressions c))"
      by (intro setup_session_keeps) (auto simp: control_ids_image edge_ids_image)
  qed
  have kept: "''bounds x1'' \<in> ids c \<longrightarrow>
        (\<forall>i \<in> {''bounds x2'', ''bounds y1'', ''bounds y2''}.
           i \<in> ids (setup_session c) \<longleftrightarrow> i \<in> ids c)"
    unfolding ids_setup_session edge_ids control_ids by auto
  from created untouched kept show ?thesis by blast
qed

text \<open>
  The theorem of C10 on a session that has \<^verbatim>\<open>bounds x1\<close> only, set by the user to 2, and
  on the empty session.
\<close>

theorem setup_edges_only_by_x1_witness:
  "''bounds x1'' \<in> ids x1_only \<and> ''bounds x2'' \<notin> ids x1_only
   \<and> find_id ''bounds x1'' (expressions (setup_session x1_only))
       = Some ((create_expr ((object ''bounds x1'')\<lparr>set_latex := Some (Literal ''B_{x1}=2'')\<rparr>))
                \<lparr>folderId := Some ''bounds''\<rparr>)
   \<and> find_id ''bounds x2'' (expressions (setup_session x1_only)) = None
   \<and> find_id ''bounds y1'' (expressions (setup_session x1_only)) = None
   \<and> find_id ''bounds y2'' (expressions (setup_session x1_only)) = None
   \<and> ''bounds x2'' \<notin> ids (setup_session x1_only)
   \<and> ''bounds y1'' \<notin> ids (setup_session x1_only)
   \<and> ''bounds y2'' \<notin> ids (setup_session x1_only)
   \<and> ''bounds x1'' \<notin> ids blank
   \<and> map_option (\<lambda>e. (latex e, secret e)) (find_id ''bounds x1'' (expressions (setup_session blank)))
       = Some (Some (Literal ''B_{x1}=-9.6''), True)
   \<and> map_option (\<lambda>e. (latex e, secret e)) (find_id ''bounds x2'' (expressions (setup_session blank)))
       = Some (Some (Literal ''B_{x2}= 9.6''), True)
   \<and> map_option (\<lambda>e. (latex e, secret e)) (find_id ''bounds y1'' (expressions (setup_session blank)))
       = Some (Some (Literal ''B_{y1}=-5.4''), True)
   \<and> map_option (\<lambda>e. (latex e, secret e)) (find_id ''bounds y2'' (expressions (setup_session blank)))
       = Some (Some (Literal ''B_{y2}= 5.4''), True)"
proof -
  have a: "''bounds x1'' \<in> ids x1_only"
    by (simp add: ids_def x1_only_def create_expr_def object_def)
  have b: "''bounds x2'' \<notin> ids x1_only" "''bounds y1'' \<notin> ids x1_only" "''bounds y2'' \<notin> ids x1_only"
    by (simp_all add: ids_def x1_only_def create_expr_def object_def)
  have f: "find_id ''bounds x1'' (expressions x1_only)
        = Some (create_expr ((object ''bounds x1'')\<lparr>set_latex := Some (Literal ''B_{x1}=2'')\<rparr>))"
    "find_id ''bounds x2'' (expressions x1_only) = None"
    "find_id ''bounds y1'' (expressions x1_only) = None"
    "find_id ''bounds y2'' (expressions x1_only) = None"
    by (simp_all add: find_id_def x1_only_def create_expr_def object_def)
  have p: "place_in_folder (create_expr ((object ''bounds x1'')\<lparr>set_latex := Some (Literal ''B_{x1}=2'')\<rparr>))
      = (create_expr ((object ''bounds x1'')\<lparr>set_latex := Some (Literal ''B_{x1}=2'')\<rparr>))
                \<lparr>folderId := Some ''bounds''\<rparr>"
    by (simp add: place_in_folder_def startsWith_def create_expr_def object_def)
  have c: "''bounds x1'' \<notin> ids blank"
    by (simp add: ids_def blank_def)
  from setup_edges_only_by_x1 [of x1_only] setup_edges_only_by_x1 [of blank] a b c f p
  show ?thesis by simp
qed

lemma animated_animate:
  "map_option latex (find_id ''bounds animate'' (expressions animated))
     = Some (Some (Literal ''a_{nimate}=1''))"
proof -
  let ?p = "(object ''bounds animate'')\<lparr>set_latex := Some (Literal ''a_{nimate}=1'')\<rparr>"
  have "find_id (set_id ?p) (set_in_list ?p (expressions bootstrapped))
      = Some (update_expr ?p ((create_expr ((object ''bounds animate'')
          \<lparr>set_secret := Some True, set_latex := Some (Literal ''a_{nimate}=0'')\<rparr>))
        \<lparr>folderId := Some ''bounds''\<rparr>))"
    unfolding find_id_set_same using bootstrapped_animate by simp
  then show ?thesis
    by (simp add: animated_def update_expr_def)
qed

text \<open>
  Claim C4, as stated, on a session that \<^verbatim>\<open>setup\<close> has prepared and in which the user has
  then raised \<open>a_{nimate}\<close> to 1: a second run of \<^verbatim>\<open>setup\<close> writes \<^verbatim>\<open>a_{nimate}=0\<close> over it.
\<close>

theorem setup_resets_animate_counterexample:
  "map_option latex (find_id ''bounds animate'' (expressions animated))
     = Some (Some (Literal ''a_{nimate}=1''))
   \<and> map_option latex (find_id ''bounds animate'' (expressions (setup_session animated)))
     = Some (Some (Literal ''a_{nimate}=0''))"
  using animated_animate setup_session_animate [of animated] by simp

text \<open>The theorem of C4 on the same session.\<close>

theorem setup_session_idempotent_witness:
  "setup_session (setup_session animated) = setup_session animated
   \<and> distinct (map id' (expressions (setup_session animated)))
   \<and> find_id ''bounds time'' (expressions (setup_session animated))
       = Some ((create_expr time_slider)\<lparr>folderId := Some ''bounds''\<rparr>)
   \<and> find_id ''bounds x1'' (expressions (setup_session animated))
       = find_id ''bounds x1'' (expressions bootstrapped)"
proof -
  let ?p = "(object ''bounds animate'')\<lparr>set_latex := Some (Literal ''a_{nimate}=1'')\<rparr>"
  have d: "distinct (map id' (expressions animated))"
    unfolding animated_def expressions_setExpression
    by (rule distinct_set_in_list) (simp add: bootstrapped_ids)
  have ids: "ids animated = ids bootstrapped"
    unfolding animated_def ids_setExpression by (auto simp: ids_def bootstrapped_ids)
  have t: "''bounds time'' \<in> ids animated" and x: "''bounds x1'' \<in> ids animated"
    unfolding ids by (simp_all add: ids_def bootstrapped_ids)
  have same: "find_id ''bounds time'' (expressions animated) = find_id ''bounds time'' (expressions bootstrapped)"
    "find_id ''bounds x1'' (expressions animated) = find_id ''bounds x1'' (expressions bootstrapped)"
    by (simp_all add: animated_def find_id_set_other)
  have placed: "map_option place_in_folder (find_id ''bounds x1'' (expressions bootstrapped))
      = find_id ''bounds x1'' (expressions bootstrapped)"
    unfolding bootstrapped_def setup_session_eq [of blank] by (simp add: find_id_place option.map_comp comp_def)
  from setup_session_idempotent [of animated] d t x same placed bootstrapped_time
  show ?thesis by (simp add: place_in_folder_def create_expr_def time_slider_def object_def startsWith_def)
qed

end
